theory Spec2Isabelle
  imports Complex_Main
begin

section \<open>The kombine ensemble sampler (\<^verbatim>\<open>src/kombine/sampler.py\<close>)\<close>

text \<open>
  A shallow embedding of the class \<^verbatim>\<open>Sampler\<close>: its constructor, \<^verbatim>\<open>rollback\<close>,
  \<^verbatim>\<open>draw\<close>, \<^verbatim>\<open>sample\<close> and \<^verbatim>\<open>burnin\<close>.

  \<^item> numpy floats are values of \<open>flt\<close>: the reals with \<open>NaN\<close> and the two infinities;
    arithmetic on finite values is exact (rounding is not modelled);
  \<^item> Python exceptions are values of \<open>exn\<close>; a method that may raise returns the
    exception next to the state it leaves behind;
  \<^item> numpy arrays that the caller and the sampler share by reference (the live
    ensemble \<^verbatim>\<open>p\<close>, \<^verbatim>\<open>lnpost\<close>, \<^verbatim>\<open>lnprop\<close>) live in a store and are named by
    addresses; the four history arrays are owned by the sampler and are fields;
  \<^item> the collaborators that the module only calls (the posterior function, the fitted
    density, the random number generator, the two-sample test) are the fields of an
    environment record; the random ones take the number of random calls made so far.
\<close>

subsection \<open>Floats\<close>

datatype flt = NaN | NInf | Fin real | PInf

fun fneg :: "flt \<Rightarrow> flt" where
  "fneg NaN = NaN"
| "fneg NInf = PInf"
| "fneg PInf = NInf"
| "fneg (Fin x) = Fin (- x)"

fun fadd :: "flt \<Rightarrow> flt \<Rightarrow> flt" where
  "fadd (Fin x) (Fin y) = Fin (x + y)"
| "fadd NaN _ = NaN"
| "fadd _ NaN = NaN"
| "fadd PInf NInf = NaN"
| "fadd NInf PInf = NaN"
| "fadd PInf _ = PInf"
| "fadd _ PInf = PInf"
| "fadd NInf _ = NInf"
| "fadd _ NInf = NInf"

definition fsub :: "flt \<Rightarrow> flt \<Rightarrow> flt" where
  "fsub x y = fadd x (fneg y)"

text \<open>\<open>fgt x y\<close> is the comparison \<^verbatim>\<open>x > y\<close>: false whenever an operand is NaN.\<close>

fun fgt :: "flt \<Rightarrow> flt \<Rightarrow> bool" where
  "fgt (Fin x) (Fin y) = (y < x)"
| "fgt NaN _ = False"
| "fgt _ NaN = False"
| "fgt _ PInf = False"
| "fgt PInf _ = True"
| "fgt NInf _ = False"
| "fgt (Fin x) NInf = True"

text \<open>\<^verbatim>\<open>np.log\<close> on a real argument: \<^verbatim>\<open>-inf\<close> at zero (with a warning, no exception).\<close>

definition np_log :: "real \<Rightarrow> flt" where
  "np_log u = (if u = 0 then NInf else if u < 0 then NaN else Fin (ln u))"

subsection \<open>Exceptions\<close>

text \<open>
  \<open>Exception n\<close> is an instance of a subclass of \<^verbatim>\<open>Exception\<close> named \<open>n\<close>;
  \<open>BaseException n\<close> is any other exception outside that class (\<^verbatim>\<open>SystemExit\<close>, ...).
\<close>

datatype exn = Exception string | KeyboardInterrupt | BaseException string

abbreviation IndexError :: exn where "IndexError \<equiv> Exception ''IndexError''"
abbreviation ValueError :: exn where "ValueError \<equiv> Exception ''ValueError''"
abbreviation TypeError :: exn where "TypeError \<equiv> Exception ''TypeError''"
abbreviation AttributeError :: exn where "AttributeError \<equiv> Exception ''AttributeError''"
abbreviation ZeroDivisionError :: exn where "ZeroDivisionError \<equiv> Exception ''ZeroDivisionError''"
abbreviation OverflowError :: exn where "OverflowError \<equiv> Exception ''OverflowError''"
abbreviation UnboundLocalError :: exn where "UnboundLocalError \<equiv> Exception ''UnboundLocalError''"

text \<open>What \<^verbatim>\<open>except Exception\<close> catches.\<close>

fun is_Exception :: "exn \<Rightarrow> bool" where
  "is_Exception (Exception _) = True"
| "is_Exception _ = False"

subsection \<open>numpy and Python list operations\<close>

text \<open>\<^verbatim>\<open>xs[mask]\<close>: the entries of \<open>xs\<close> where the boolean mask is set.\<close>

fun np_select :: "bool list \<Rightarrow> 'a list \<Rightarrow> 'a list" where
  "np_select (m # ms) (x # xs) = (if m then x # np_select ms xs else np_select ms xs)"
| "np_select _ _ = []"

text \<open>\<^verbatim>\<open>xs[mask] = vs\<close>: the entries of \<open>xs\<close> where the mask is set are replaced, in
  order, by the values \<open>vs\<close>.\<close>

fun np_put :: "bool list \<Rightarrow> 'a list \<Rightarrow> 'a list \<Rightarrow> 'a list" where
  "np_put (m # ms) (x # xs) vs =
     (if m then (case vs of [] \<Rightarrow> x # np_put ms xs [] | v # vs' \<Rightarrow> v # np_put ms xs vs')
      else x # np_put ms xs vs)"
| "np_put _ xs _ = xs"

text \<open>\<^verbatim>\<open>xs[:k]\<close> for an integer \<open>k\<close>: a negative \<open>k\<close> counts from the end.\<close>

definition py_take :: "int \<Rightarrow> 'a list \<Rightarrow> 'a list" where
  "py_take k xs = (if k < 0 then take (length xs - nat (- k)) xs else take (nat k) xs)"

text \<open>\<^verbatim>\<open>xs[-w:]\<close> for an integer \<open>w\<close>: the last \<open>w\<close> entries (all of them when there are
  fewer, and when \<open>w = 0\<close>, where \<^verbatim>\<open>-0\<close> is \<^verbatim>\<open>0\<close>); \<^verbatim>\<open>xs[|w|:]\<close> for a negative \<open>w\<close>.\<close>

definition py_last_n :: "int \<Rightarrow> 'a list \<Rightarrow> 'a list" where
  "py_last_n w xs = (if 0 < w then drop (length xs - nat w) xs else drop (nat (- w)) xs)"

text \<open>\<^verbatim>\<open>int(x)\<close> on a finite float truncates toward zero.\<close>

definition py_int :: "real \<Rightarrow> int" where
  "py_int x = (if 0 \<le> x then \<lfloor>x\<rfloor> else \<lceil>x\<rceil>)"

text \<open>\<^verbatim>\<open>np.mean\<close> of a non-empty vector.\<close>

definition np_mean :: "real list \<Rightarrow> real" where
  "np_mean xs = sum_list xs / real (length xs)"

text \<open>\<^verbatim>\<open>map(f, xs)\<close> where \<open>f\<close> may raise: the first exception ends the map. The pool's
  \<^verbatim>\<open>map\<close> is used through the same contract.\<close>

fun py_map :: "('a \<Rightarrow> exn + 'b) \<Rightarrow> 'a list \<Rightarrow> exn + 'b list" where
  "py_map f [] = Inr []"
| "py_map f (x # xs) =
     (case f x of
        Inl e \<Rightarrow> Inl e
      | Inr y \<Rightarrow> (case py_map f xs of Inl e \<Rightarrow> Inl e | Inr ys \<Rightarrow> Inr (y # ys)))"

subsection \<open>The sampler, the store and the collaborators\<close>

type_synonym pos = "real list"
type_synonym addr = nat

text \<open>A fitted proposal density: its serial number among all fits, and the ensemble it
  was fitted to.\<close>

datatype kde = KDE nat "pos list"

record env =
  lnpostfn :: "pos \<Rightarrow> exn + flt"
  kde_call :: "kde \<Rightarrow> pos \<Rightarrow> exn + flt"
  kde_draw :: "kde \<Rightarrow> nat \<Rightarrow> nat \<Rightarrow> pos list"
  rand :: "nat \<Rightarrow> nat \<Rightarrow> real"
  ks_2samp :: "real list \<Rightarrow> real list \<Rightarrow> real"

text \<open>
  \<open>kde_draw env k N t\<close> is \<^verbatim>\<open>k.draw(N)\<close> and \<open>rand env t i\<close> the \<open>i\<close>-th entry of
  \<^verbatim>\<open>np.random.rand(n)\<close>, each as the \<open>t\<close>-th random call; \<open>ks_2samp env a b\<close> is the
  p-value of the two-sample test.

  The state: the store (\<open>vecs\<close> for one-dimensional arrays, \<open>mats\<close> for arrays of
  positions, \<open>brk\<close> the next unused address), the number of random calls \<open>rng\<close>, a log
  of the calls to \<^verbatim>\<open>optimized_kde\<close> (iteration count and ensemble) and the number of
  pools created so far, then the attributes of the \<^verbatim>\<open>Sampler\<close> object. The acceptance
  history holds 0.0 and 1.0 only and is kept as booleans.
\<close>

record state =
  vecs :: "addr \<Rightarrow> flt list"
  mats :: "addr \<Rightarrow> pos list"
  brk :: addr
  rng :: nat
  fit_log :: "(nat \<times> pos list) list"
  npools :: nat
  nwalkers :: nat
  dim :: nat
  iterations :: nat
  kde :: "kde option"
  pool :: "nat option"
  processes :: "int option"
  chain_h :: "pos list list"
  lnpost_h :: "flt list list"
  lnprop_h :: "flt list list"
  acceptance_h :: "bool list list"
  failed_p :: "pos list option"

type_synonym refs = "addr \<times> addr \<times> addr"

text \<open>\<^verbatim>\<open>Pool(self.processes)\<close>: a new pool, named by its number.\<close>

definition new_Pool :: "state \<Rightarrow> state" where
  "new_Pool s = s\<lparr>pool := Some (npools s), npools := Suc (npools s)\<rparr>"

text \<open>\<^verbatim>\<open>Sampler.__init__\<close>, in a world with an empty store.\<close>

definition init :: "nat \<Rightarrow> nat \<Rightarrow> int option \<Rightarrow> nat option \<Rightarrow> state" where
  "init nw ndim procs pl =
     (let s = \<lparr>vecs = (\<lambda>_. []), mats = (\<lambda>_. []), brk = 0, rng = 0, fit_log = [],
               npools = (case pl of None \<Rightarrow> 0 | Some i \<Rightarrow> Suc i),
               nwalkers = nw, dim = ndim, iterations = 0, kde = None,
               pool = pl, processes = procs,
               chain_h = [], lnpost_h = [], lnprop_h = [], acceptance_h = [],
               failed_p = None\<rparr>
      in if procs \<noteq> Some 1 \<and> pl = None then new_Pool s else s)"

text \<open>Arrays created by the caller or by a call.\<close>

definition alloc_mat :: "pos list \<Rightarrow> state \<Rightarrow> addr \<times> state" where
  "alloc_mat m s = (brk s, s\<lparr>mats := (mats s)(brk s := m), brk := Suc (brk s)\<rparr>)"

definition alloc_vec :: "flt list \<Rightarrow> state \<Rightarrow> addr \<times> state" where
  "alloc_vec v s = (brk s, s\<lparr>vecs := (vecs s)(brk s := v), brk := Suc (brk s)\<rparr>)"

text \<open>\<^verbatim>\<open>Sampler.rollback\<close>. The constructor creates a pool whenever \<^verbatim>\<open>processes\<close> is not 1,
  so that \<^verbatim>\<open>self.pool.close()\<close> has a pool to close.\<close>

definition rollback :: "int \<Rightarrow> state \<Rightarrow> state" where
  "rollback iteration s =
     (let s1 = s\<lparr>chain_h := py_take iteration (chain_h s),
                 lnpost_h := py_take iteration (lnpost_h s),
                 lnprop_h := py_take iteration (lnprop_h s),
                 acceptance_h := py_take iteration (acceptance_h s)\<rparr>
      in if processes s1 \<noteq> Some 1 then new_Pool s1 else s1)"

text \<open>\<^verbatim>\<open>Sampler.draw\<close>: \<^verbatim>\<open>self._kde.draw(N)\<close>, an AttributeError while there is no
  proposal.\<close>

definition draw :: "env \<Rightarrow> nat \<Rightarrow> state \<Rightarrow> exn + (pos list \<times> state)" where
  "draw env N s =
     (case kde s of
        None \<Rightarrow> Inl AttributeError
      | Some k \<Rightarrow> Inr (kde_draw env k N (rng s), s\<lparr>rng := Suc (rng s)\<rparr>))"

text \<open>\<^verbatim>\<open>self._kde = optimized_kde(p, pool=self.pool)\<close>, logged.\<close>

definition optimized_kde :: "pos list \<Rightarrow> state \<Rightarrow> state" where
  "optimized_kde p s =
     s\<lparr>kde := Some (KDE (length (fit_log s)) p),
       fit_log := fit_log s @ [(iterations s, p)]\<rparr>"

text \<open>\<^verbatim>\<open>GetLnProbWrapper.__call__\<close>: the posterior first, then the density.\<close>

definition GetLnProbWrapper :: "env \<Rightarrow> kde option \<Rightarrow> pos \<Rightarrow> exn + (flt \<times> flt)" where
  "GetLnProbWrapper env k x =
     (case lnpostfn env x of
        Inl e \<Rightarrow> Inl e
      | Inr a \<Rightarrow>
          (case k of
             None \<Rightarrow> Inl TypeError
           | Some kd \<Rightarrow> (case kde_call env kd x of Inl e \<Rightarrow> Inl e | Inr b \<Rightarrow> Inr (a, b))))"

text \<open>
  \<^verbatim>\<open>results = np.array(m(GetLnProbWrapper(...), p))\<close> followed by the two column
  reads \<^verbatim>\<open>results[:, 0]\<close> and \<^verbatim>\<open>results[:, 1]\<close>; an empty result is a one-dimensional
  array, on which the column read raises IndexError.
\<close>

definition lnprob_batch :: "env \<Rightarrow> kde option \<Rightarrow> pos list \<Rightarrow> exn + (flt list \<times> flt list)" where
  "lnprob_batch env k ps =
     (case py_map (GetLnProbWrapper env k) ps of
        Inl e \<Rightarrow> Inl e
      | Inr rs \<Rightarrow> if rs = [] then Inl IndexError else Inr (map fst rs, map snd rs))"

subsection \<open>\<^verbatim>\<open>Sampler.sample\<close>\<close>

text \<open>
  Lines 204 to 225: the live ensemble \<^verbatim>\<open>p\<close> (a draw, or a copy of the caller's
  \<^verbatim>\<open>p0\<close>), the first proposal, and the log values where the caller gave none. The
  caller's \<^verbatim>\<open>lnpost0\<close> and \<^verbatim>\<open>lnprop0\<close> are taken by reference. Nothing here is inside
  a \<^verbatim>\<open>try\<close>.
\<close>

definition sample_init ::
  "env \<Rightarrow> addr option \<Rightarrow> addr option \<Rightarrow> addr option \<Rightarrow> state \<Rightarrow> (exn + refs) \<times> state" where
  "sample_init env p0 lnpost0 lnprop0 s =
     (case (case p0 of None \<Rightarrow> draw env (nwalkers s) s | Some a \<Rightarrow> Inr (mats s a, s)) of
        Inl e \<Rightarrow> (Inl e, s)
      | Inr (pv, s1) \<Rightarrow>
          (case alloc_mat pv s1 of (p, s2) \<Rightarrow>
             let s3 = (if kde s2 = None then optimized_kde pv s2 else s2) in
             if lnpost0 = None \<or> lnprop0 = None then
               (case lnprob_batch env (kde s3) pv of
                  Inl e \<Rightarrow> (Inl e, s3)
                | Inr (c0, c1) \<Rightarrow>
                    (case (case lnpost0 of None \<Rightarrow> alloc_vec c0 s3 | Some a \<Rightarrow> (a, s3)) of
                       (lnpost, s4) \<Rightarrow>
                         (case (case lnprop0 of None \<Rightarrow> alloc_vec c1 s4 | Some a \<Rightarrow> (a, s4)) of
                            (lnprop, s5) \<Rightarrow> (Inr (p, lnpost, lnprop), s5))))
             else (Inr (p, the lnpost0, the lnprop0), s3)))"

text \<open>Lines 227 to 235: each history gets \<open>n\<close> rows of zeros.\<close>

definition prealloc :: "nat \<Rightarrow> state \<Rightarrow> state" where
  "prealloc n s =
     s\<lparr>chain_h := chain_h s @ replicate n (replicate (nwalkers s) (replicate (dim s) 0)),
       lnpost_h := lnpost_h s @ replicate n (replicate (nwalkers s) (Fin 0)),
       lnprop_h := lnprop_h s @ replicate n (replicate (nwalkers s) (Fin 0)),
       acceptance_h := acceptance_h s @ replicate n (replicate (nwalkers s) False)\<rparr>"

text \<open>Line 259, per walker, in the order the source evaluates it.\<close>

definition ln_mh_ratio :: "flt list \<Rightarrow> flt list \<Rightarrow> flt list \<Rightarrow> flt list \<Rightarrow> flt list" where
  "ln_mh_ratio lnpost_p lnpost lnprop lnprop_p =
     map (\<lambda>(a, b, c, d). fsub (fadd (fsub a b) c) d)
       (zip lnpost_p (zip lnpost (zip lnprop lnprop_p)))"

text \<open>Lines 262 to 268, from the ratios and the uniform draws.\<close>

definition accept_mask :: "flt list \<Rightarrow> real list \<Rightarrow> bool list" where
  "accept_mask r uniform_draws =
     (let acc = map (\<lambda>x. fgt x (Fin 0)) r;
          worse = map Not acc
      in np_put worse acc (map2 fgt (np_select worse r) (map np_log uniform_draws)))"

text \<open>\<^verbatim>\<open>np.random.rand(nworse)\<close>, with \<open>nworse\<close> the number of walkers not yet accepted.\<close>

definition uniform_draws :: "env \<Rightarrow> nat \<Rightarrow> flt list \<Rightarrow> real list" where
  "uniform_draws env t r =
     map (rand env t) [0 ..< length (filter (\<lambda>x. \<not> fgt x (Fin 0)) r)]"

text \<open>Lines 270 to 274: the accepted walkers move, in the arrays \<open>p\<close>, \<open>lnpost\<close> and
  \<open>lnprop\<close> themselves.\<close>

definition update_walkers ::
  "refs \<Rightarrow> bool list \<Rightarrow> pos list \<Rightarrow> flt list \<Rightarrow> flt list \<Rightarrow> state \<Rightarrow> state" where
  "update_walkers r acc p_p lnpost_p lnprop_p s =
     (case r of (p, lnpost, lnprop) \<Rightarrow>
        if True \<in> set acc then
          let s1 = s\<lparr>mats := (mats s)(p := np_put acc (mats s p) (np_select acc p_p))\<rparr>;
              s2 = s1\<lparr>vecs := (vecs s1)(lnpost :=
                        np_put acc (vecs s1 lnpost) (np_select acc lnpost_p))\<rparr>
          in s2\<lparr>vecs := (vecs s2)(lnprop :=
                   np_put acc (vecs s2 lnprop) (np_select acc lnprop_p))\<rparr>
        else s)"

text \<open>Lines 277 to 282: the four rows at index \<^verbatim>\<open>self.iterations\<close>, one after the
  other, each an IndexError when the index is not below the length; then the counter.\<close>

definition store :: "refs \<Rightarrow> bool list \<Rightarrow> state \<Rightarrow> exn option \<times> state" where
  "store r acc s =
     (case r of (p, lnpost, lnprop) \<Rightarrow>
        let i = iterations s in
        if \<not> i < length (chain_h s) then (Some IndexError, s)
        else let s1 = s\<lparr>chain_h := (chain_h s)[i := mats s p]\<rparr> in
        if \<not> i < length (lnpost_h s1) then (Some IndexError, s1)
        else let s2 = s1\<lparr>lnpost_h := (lnpost_h s1)[i := vecs s1 lnpost]\<rparr> in
        if \<not> i < length (lnprop_h s2) then (Some IndexError, s2)
        else let s3 = s2\<lparr>lnprop_h := (lnprop_h s2)[i := vecs s2 lnprop]\<rparr> in
        if \<not> i < length (acceptance_h s3) then (Some IndexError, s3)
        else (None, s3\<lparr>acceptance_h := (acceptance_h s3)[i := acc], iterations := Suc i\<rparr>))"

text \<open>Lines 285 and 286: \<^verbatim>\<open>%\<close> by zero raises; Python's \<^verbatim>\<open>%\<close> on integers is \<open>mod\<close>.\<close>

definition update_proposal :: "int \<Rightarrow> refs \<Rightarrow> state \<Rightarrow> exn option \<times> state" where
  "update_proposal update_interval r s =
     (case r of (p, lnpost, lnprop) \<Rightarrow>
        if update_interval = 0 then (Some ZeroDivisionError, s)
        else if int (iterations s) mod update_interval = 0
          then (None, optimized_kde (mats s p) s)
          else (None, s))"

text \<open>
  The two handlers. An exception of the evaluation that is an \<^verbatim>\<open>Exception\<close> is caught
  by the inner handler (lines 251 to 256), which re-raises it; that passes the outer
  handler, which catches \<^verbatim>\<open>KeyboardInterrupt\<close> only (lines 288 to 290).
\<close>

definition on_eval_error :: "exn \<Rightarrow> pos list \<Rightarrow> state \<Rightarrow> state" where
  "on_eval_error e p_p s =
     (if is_Exception e then (rollback (int (iterations s)) s)\<lparr>failed_p := Some p_p\<rparr>
      else if e = KeyboardInterrupt then rollback (int (iterations s)) s
      else s)"

definition on_error :: "exn \<Rightarrow> state \<Rightarrow> state" where
  "on_error e s = (if e = KeyboardInterrupt then rollback (int (iterations s)) s else s)"

text \<open>One pass through the body of the \<^verbatim>\<open>for\<close> loop (lines 238 to 290).\<close>

definition sample_iter :: "env \<Rightarrow> int \<Rightarrow> refs \<Rightarrow> state \<Rightarrow> exn option \<times> state" where
  "sample_iter env update_interval r s =
     (case draw env (nwalkers s) s of
        Inl e \<Rightarrow> (Some e, on_error e s)
      | Inr (p_p, s1) \<Rightarrow>
          (case lnprob_batch env (kde s1) p_p of
             Inl e \<Rightarrow> (Some e, on_eval_error e p_p s1)
           | Inr (lnpost_p, lnprop_p) \<Rightarrow>
               let ratio = ln_mh_ratio lnpost_p (vecs s1 (fst (snd r))) (vecs s1 (snd (snd r)))
                             lnprop_p;
                   acc = accept_mask ratio (uniform_draws env (rng s1) ratio);
                   s2 = s1\<lparr>rng := Suc (rng s1)\<rparr>;
                   s3 = update_walkers r acc p_p lnpost_p lnprop_p s2
               in (case store r acc s3 of
                     (Some e, s4) \<Rightarrow> (Some e, on_error e s4)
                   | (None, s4) \<Rightarrow>
                       (case update_proposal update_interval r s4 of
                          (Some e, s5) \<Rightarrow> (Some e, on_error e s5)
                        | (None, s5) \<Rightarrow> (None, s5)))))"

text \<open>\<^verbatim>\<open>for i in xrange(int(iterations))\<close>: the first exception ends the loop.\<close>

fun sample_loop :: "env \<Rightarrow> int \<Rightarrow> refs \<Rightarrow> nat \<Rightarrow> state \<Rightarrow> exn option \<times> state" where
  "sample_loop env update_interval r 0 s = (None, s)"
| "sample_loop env update_interval r (Suc n) s =
     (case sample_iter env update_interval r s of
        (Some e, s') \<Rightarrow> (Some e, s')
      | (None, s') \<Rightarrow> sample_loop env update_interval r n s')"

text \<open>\<^verbatim>\<open>Sampler.sample\<close>. \<^verbatim>\<open>np.zeros\<close> raises ValueError on a negative row count, before
  any history is replaced.\<close>

definition sample ::
  "env \<Rightarrow> addr option \<Rightarrow> addr option \<Rightarrow> addr option \<Rightarrow> int \<Rightarrow> int \<Rightarrow> state
     \<Rightarrow> (exn + refs) \<times> state" where
  "sample env p0 lnpost0 lnprop0 iters update_interval s =
     (case sample_init env p0 lnpost0 lnprop0 s of
        (Inl e, s1) \<Rightarrow> (Inl e, s1)
      | (Inr r, s1) \<Rightarrow>
          if iters < 0 then (Inl ValueError, s1)
          else (case sample_loop env update_interval r (nat iters) (prealloc (nat iters) s1) of
                  (Some e, s2) \<Rightarrow> (Inl e, s2)
                | (None, s2) \<Rightarrow> (Inr r, s2)))"

subsection \<open>\<^verbatim>\<open>Sampler.burnin\<close>\<close>

text \<open>\<^verbatim>\<open>m[:, par]\<close>: an IndexError when the array has no such column.\<close>

definition column :: "pos list \<Rightarrow> nat \<Rightarrow> exn + real list" where
  "column m par =
     (if list_all (\<lambda>row. par < length row) m then Inr (map (\<lambda>row. row ! par) m)
      else Inl IndexError)"

text \<open>Lines 130 to 136, over the parameters still to test: whether every p-value is at
  least the critical one; the first that is not ends the loop.\<close>

fun ks_test :: "env \<Rightarrow> pos list \<Rightarrow> pos list \<Rightarrow> nat list \<Rightarrow> exn + bool" where
  "ks_test env p0 p [] = Inr True"
| "ks_test env p0 p (par # pars) =
     (case column p0 par of
        Inl e \<Rightarrow> Inl e
      | Inr a \<Rightarrow>
          (case column p par of
             Inl e \<Rightarrow> Inl e
           | Inr b \<Rightarrow> if ks_2samp env a b < 0.05 then Inr False else ks_test env p0 p pars))"

text \<open>
  Lines 142 to 155: the next test interval. \<^verbatim>\<open>self.acceptance[-1]\<close> raises IndexError
  on an empty history; the mean of no walkers is NaN and \<^verbatim>\<open>int\<close> of it a ValueError; a
  mean of zero makes the quotient infinite and \<^verbatim>\<open>int\<close> of it an OverflowError.
\<close>

definition adapt_interval :: "state \<Rightarrow> exn + int" where
  "adapt_interval s =
     (if acceptance_h s = [] then Inl IndexError
      else let a = map of_bool (last (acceptance_h s)) in
        if a = [] then Inl ValueError
        else if np_mean a = 0 then Inl OverflowError
        else
          let window = py_int (10 * 1 / np_mean a);
              acceptance_rates =
                map (\<lambda>w. np_mean (map (\<lambda>row. of_bool (row ! w))
                                     (py_last_n window (acceptance_h s))))
                  [0 ..< nwalkers s];
              index = py_int (0.1 * real (nwalkers s))
          in if \<not> nat index < length (sort acceptance_rates) then Inl IndexError
             else let low_rate = sort acceptance_rates ! nat index in
               if low_rate > 0 then Inr (py_int (1 / low_rate)) else Inr window)"

text \<open>The variables of the \<^verbatim>\<open>while\<close> loop: \<open>b_last\<close> is \<^verbatim>\<open>(p, lnpost, lnprop)\<close>, unbound
  until the first call of \<^verbatim>\<open>sample\<close> has returned.\<close>

record burn =
  b_p0 :: addr
  b_lnpost0 :: "addr option"
  b_lnprop0 :: "addr option"
  test_interval :: int
  b_last :: "refs option"

text \<open>\<^verbatim>\<open>return (p, lnpost, lnprop)\<close>.\<close>

definition burnin_return :: "refs option \<Rightarrow> exn + refs" where
  "burnin_return l = (case l of None \<Rightarrow> Inl UnboundLocalError | Some r \<Rightarrow> Inr r)"

text \<open>
  One pass through the \<^verbatim>\<open>while\<close> loop (lines 122 to 157). \<open>Stop r u s\<close>: the method
  ends with \<open>r\<close> in state \<open>s\<close>, and \<open>u\<close> tells whether it printed
  \<^verbatim>\<open>Burnin unsuccessful.\<close>; \<open>Continue b s\<close>: the loop goes on. \<open>max_iter\<close> is \<open>None\<close>
  for \<^verbatim>\<open>np.inf\<close>.
\<close>

datatype cycle = Stop "exn + refs" bool state | Continue burn state

definition burnin_cycle :: "env \<Rightarrow> int \<Rightarrow> int option \<Rightarrow> burn \<Rightarrow> state \<Rightarrow> cycle" where
  "burnin_cycle env update_interval max_iter b s =
     (if (case max_iter of None \<Rightarrow> False
          | Some m \<Rightarrow> int (iterations s) + test_interval b > m)
      then Stop (burnin_return (b_last b)) True s
      else
        (case sample env (Some (b_p0 b)) (b_lnpost0 b) (b_lnprop0 b) (test_interval b)
                update_interval s of
           (Inl e, s1) \<Rightarrow> Stop (Inl e) False s1
         | (Inr (p, lnpost, lnprop), s1) \<Rightarrow>
             (case ks_test env (mats s1 (b_p0 b)) (mats s1 p) [0 ..< dim s1] of
                Inl e \<Rightarrow> Stop (Inl e) False s1
              | Inr True \<Rightarrow> Stop (Inr (p, lnpost, lnprop)) False s1
              | Inr False \<Rightarrow>
                  (case adapt_interval s1 of
                     Inl e \<Rightarrow> Stop (Inl e) False s1
                   | Inr t \<Rightarrow>
                       Continue \<lparr>b_p0 = p, b_lnpost0 = Some lnpost, b_lnprop0 = Some lnprop,
                                 test_interval = t, b_last = Some (p, lnpost, lnprop)\<rparr> s1))))"

text \<open>The loop may run forever when there is no step budget: \<open>None\<close> is "does not
  return".\<close>

partial_function (option) burnin_loop ::
  "env \<Rightarrow> int \<Rightarrow> int option \<Rightarrow> burn \<Rightarrow> state \<Rightarrow> ((exn + refs) \<times> bool \<times> state) option" where
  "burnin_loop env update_interval max_iter b s =
     (case burnin_cycle env update_interval max_iter b s of
        Stop r u s' \<Rightarrow> Some (r, u, s')
      | Continue b' s' \<Rightarrow> burnin_loop env update_interval max_iter b' s')"

text \<open>\<^verbatim>\<open>Sampler.burnin\<close> (lines 104 to 162); \<^verbatim>\<open>p0 = np.array(p0)\<close> copies.\<close>

definition burnin ::
  "env \<Rightarrow> addr \<Rightarrow> addr option \<Rightarrow> addr option \<Rightarrow> int \<Rightarrow> int option \<Rightarrow> state
     \<Rightarrow> ((exn + refs) \<times> bool \<times> state) option" where
  "burnin env p0 lnpost0 lnprop0 update_interval max_steps s =
     (case alloc_mat (mats s p0) s of (p0', s1) \<Rightarrow>
        let start = int (iterations s1);
            max_iter = (case max_steps of None \<Rightarrow> None | Some m \<Rightarrow> Some (start + m));
            t = (case max_steps of None \<Rightarrow> update_interval | Some m \<Rightarrow> min update_interval m)
        in burnin_loop env update_interval max_iter
             \<lparr>b_p0 = p0', b_lnpost0 = lnpost0, b_lnprop0 = lnprop0,
              test_interval = t, b_last = None\<rparr> s1)"

section \<open>Properties\<close>

subsection \<open>Auxiliary notions\<close>

text \<open>The number of walkers that the deterministic test of line 262 leaves open.\<close>

definition nworse :: "flt list \<Rightarrow> nat" where
  "nworse r = length (filter (\<lambda>x. \<not> fgt x (Fin 0)) r)"

text \<open>The four histories have as many rows as the iteration counter says: what the
  constructor sets up and what the accessors document (\<^verbatim>\<open>(iterations, nwalkers, ...)\<close>).\<close>

definition hist_inv :: "state \<Rightarrow> bool" where
  "hist_inv s \<longleftrightarrow>
     length (chain_h s) = iterations s \<and> length (lnpost_h s) = iterations s \<and>
     length (lnprop_h s) = iterations s \<and> length (acceptance_h s) = iterations s"

text \<open>The iteration counts reached by \<open>n\<close> passes from \<open>start\<close> that are multiples of the
  update interval.\<close>

definition refit_steps :: "int \<Rightarrow> nat \<Rightarrow> nat \<Rightarrow> nat list" where
  "refit_steps update_interval start n =
     filter (\<lambda>j. update_interval dvd int j) [start + 1 ..< start + n + 1]"

text \<open>\<^verbatim>\<open>draw(N)\<close> of a density returns \<open>N\<close> positions.\<close>

definition draws_ok :: "env \<Rightarrow> bool" where
  "draws_ok env \<longleftrightarrow> (\<forall>k N t. length (kde_draw env k N t) = N)"

text \<open>\<open>x\<close> is what a call of \<^verbatim>\<open>sample\<close> returned, and \<open>s'\<close> the state that call left.\<close>

definition returned_by_sample :: "env \<Rightarrow> int \<Rightarrow> refs \<Rightarrow> state \<Rightarrow> bool" where
  "returned_by_sample env update_interval x s' \<longleftrightarrow>
     (\<exists>p0 lnpost0 lnprop0 k s.
        sample env p0 lnpost0 lnprop0 k update_interval s = (Inr x, s'))"

text \<open>
  The next test interval as the specification words it (section 4.4), with \<open>round\<close>
  where the source calls \<^verbatim>\<open>int\<close>; to be compared with \<open>adapt_interval\<close>.
\<close>

definition spec_next_interval :: "state \<Rightarrow> int" where
  "spec_next_interval s =
     (let w = round (10 / np_mean (map of_bool (last (acceptance_h s))));
          rates = map (\<lambda>i. np_mean (map (\<lambda>row. of_bool (row ! i)) (py_last_n w (acceptance_h s))))
                    [0 ..< nwalkers s];
          low_rate = sort rates ! nat \<lfloor>0.1 * real (nwalkers s)\<rfloor>
      in if low_rate > 0 then round (1 / low_rate) else w)"

text \<open>
  A small instance on which the model is run: one walker in one dimension, created with
  its own pool, and the caller's initial ensemble \<open>[[0]]\<close> at address 0. The posterior of
  a position is its coordinate sum, and raises at the position \<open>[2]\<close>; the density is
  flat; the first two draws propose \<open>[1]\<close> and the later ones \<open>[2]\<close>; every uniform
  number is 1/2; the two-sample test always rejects.
\<close>

definition demo_env :: env where
  "demo_env =
     \<lparr>lnpostfn = (\<lambda>x. if x = [2] then Inl (Exception ''boom'') else Inr (Fin (sum_list x))),
      kde_call = (\<lambda>k x. Inr (Fin 0)),
      kde_draw = (\<lambda>k N t. replicate N [if t < 4 then 1 else 2]),
      rand = (\<lambda>t i. 1 / 2),
      ks_2samp = (\<lambda>a b. 0)\<rparr>"

definition demo_state :: state where
  "demo_state = snd (alloc_mat [[0]] (init 1 1 None None))"

text \<open>The same sampler with a caller's ensemble \<open>[[2]]\<close>, where the posterior raises.\<close>

definition demo_state_bad :: state where
  "demo_state_bad = snd (alloc_mat [[2]] (init 1 1 None None))"

text \<open>The demo sampler with the caller's \<^verbatim>\<open>lnpost0\<close> and \<^verbatim>\<open>lnprop0\<close>, both \<open>[0]\<close>, at the
  addresses 1 and 2.\<close>

definition demo_state_given :: state where
  "demo_state_given = snd (alloc_vec [Fin 0] (snd (alloc_vec [Fin 0] demo_state)))"

text \<open>A sampler of five walkers after one iteration in which three of them moved.\<close>

definition demo_state5 :: state where
  "demo_state5 = (init 5 1 None None)
     \<lparr>rng := 2, fit_log := [(0, replicate 5 [0])], iterations := 1,
      kde := Some (KDE 0 (replicate 5 [0])), chain_h := [[[1], [1], [1], [0], [0]]],
      lnpost_h := [[Fin 1, Fin 1, Fin 1, Fin 0, Fin 0]],
      lnprop_h := [[Fin 0, Fin 0, Fin 0, Fin 0, Fin 0]],
      acceptance_h := [[True, True, True, False, False]]\<rparr>"

subsection \<open>Running the model\<close>

lemmas sampler_defs = sample_def sample_init_def init_def alloc_mat_def alloc_vec_def
  optimized_kde_def lnprob_batch_def GetLnProbWrapper_def prealloc_def sample_iter_def draw_def
  ln_mh_ratio_def accept_mask_def uniform_draws_def update_walkers_def store_def
  update_proposal_def fsub_def np_log_def Let_def rollback_def py_take_def new_Pool_def
  on_error_def on_eval_error_def demo_env_def demo_state_def

lemmas burnin_defs = burnin_def burnin_cycle_def burnin_return_def adapt_interval_def column_def
  np_mean_def py_int_def py_last_n_def

text \<open>The constructor sets up histories that agree with the counter.\<close>

lemma hist_inv_init: "hist_inv (init nw ndim procs pl)"
  by (simp add: hist_inv_def init_def new_Pool_def Let_def)

lemma hist_inv_demo: "hist_inv demo_state"
  by (simp add: hist_inv_def demo_state_def init_def alloc_mat_def new_Pool_def)

lemma upt5: "[0..<5] = [0, 1, 2, 3, 4]"
  by (simp add: upt_rec)

subsection \<open>Lists, masks and means\<close>

lemma length_np_put [simp]: "length (np_put m xs vs) = length xs"
  by (induction m xs vs rule: np_put.induct) (auto split: list.splits)

lemma np_put_select_nth:
  "length m = length xs \<Longrightarrow> length ys = length xs \<Longrightarrow> w < length xs \<Longrightarrow>
     np_put m xs (np_select m ys) ! w = (if m ! w then ys ! w else xs ! w)"
proof (induction m arbitrary: xs ys w)
  case Nil
  then show ?case by simp
next
  case (Cons b m)
  from Cons.prems obtain x xs' y ys' where xs: "xs = x # xs'" and ys: "ys = y # ys'"
    by (cases xs; cases ys) auto
  show ?case
  proof (cases w)
    case 0
    with xs ys show ?thesis by simp
  next
    case (Suc v)
    with Cons.prems xs ys
    have "np_put m xs' (np_select m ys') ! v = (if m ! v then ys' ! v else xs' ! v)"
      by (intro Cons.IH) simp_all
    with Suc xs ys show ?thesis by simp
  qed
qed

lemma py_take_nat [simp]: "py_take (int n) xs = take n xs"
  by (simp add: py_take_def)

lemma py_take_nonneg: "0 \<le> k \<Longrightarrow> py_take k xs = take (nat k) xs"
  by (simp add: py_take_def)

lemma py_int_floor: "0 \<le> x \<Longrightarrow> py_int x = \<lfloor>x\<rfloor>"
  by (simp add: py_int_def)

lemma np_mean_bounds:
  assumes "\<forall>x \<in> set xs. 0 \<le> x \<and> x \<le> 1"
  shows "0 \<le> np_mean xs \<and> np_mean xs \<le> 1"
proof -
  from assms have "0 \<le> sum_list xs \<and> sum_list xs \<le> real (length xs)"
    by (induction xs) auto
  then show ?thesis
    by (cases "xs = []") (simp_all add: np_mean_def field_simps)
qed

lemma np_mean_of_bool: "0 \<le> np_mean (map of_bool bs) \<and> np_mean (map of_bool bs) \<le> 1"
  by (rule np_mean_bounds) auto

lemma np_mean_of_bool_row:
  "0 \<le> np_mean (map (\<lambda>row. of_bool (f row)) rows) \<and> np_mean (map (\<lambda>row. of_bool (f row)) rows) \<le> 1"
  by (rule np_mean_bounds) auto

lemma py_map_length: "py_map f xs = Inr ys \<Longrightarrow> length ys = length xs"
  by (induction xs arbitrary: ys) (auto split: sum.splits)

lemma lnprob_batch_length:
  "lnprob_batch env k ps = Inr (a, b) \<Longrightarrow> length a = length ps \<and> length b = length ps"
  by (auto simp: lnprob_batch_def split: sum.splits if_splits dest: py_map_length)

lemma ln_mh_ratio_nth:
  assumes "w < length lnpost_p" "w < length lnpost" "w < length lnprop" "w < length lnprop_p"
  shows "ln_mh_ratio lnpost_p lnpost lnprop lnprop_p ! w =
           fsub (fadd (fsub (lnpost_p ! w) (lnpost ! w)) (lnprop ! w)) (lnprop_p ! w)"
  using assms by (simp add: ln_mh_ratio_def)

lemma length_ln_mh_ratio:
  "length (ln_mh_ratio a b c d) = min (length a) (min (length b) (min (length c) (length d)))"
  by (simp add: ln_mh_ratio_def)

lemma ex_range_Suc:
  "(\<exists>j. (i::nat) \<le> j \<and> j < i + Suc n \<and> P j) \<longleftrightarrow>
     P i \<or> (\<exists>j. Suc i \<le> j \<and> j < Suc i + n \<and> P j)"
proof -
  have "i \<le> j \<longleftrightarrow> j = i \<or> Suc i \<le> j" for j by arith
  then show ?thesis by auto
qed

lemma refit_steps_0 [simp]: "refit_steps ui start 0 = []"
  by (simp add: refit_steps_def)

lemma refit_steps_Suc:
  "refit_steps ui start (Suc n) =
     (if ui dvd int (Suc start) then [Suc start] else []) @ refit_steps ui (Suc start) n"
proof -
  have "[start + 1 ..< start + Suc n + 1] = Suc start # [Suc start + 1 ..< Suc start + n + 1]"
    using upt_conv_Cons [of "Suc start" "Suc (Suc (start + n))"] by (simp del: upt_Suc)
  then have "refit_steps ui start (Suc n) =
      filter (\<lambda>j. ui dvd int j) (Suc start # [Suc start + 1 ..< Suc start + n + 1])"
    by (simp only: refit_steps_def)
  also have "\<dots> = (if ui dvd int (Suc start) then [Suc start] else []) @
      refit_steps ui (Suc start) n"
    by (simp only: refit_steps_def filter.simps append.simps if_distrib [of "\<lambda>xs. xs @ _"] cong: if_cong)
  finally show ?thesis .
qed

subsection \<open>The acceptance mask\<close>

lemma accept_mask_Nil [simp]: "accept_mask [] us = []"
  by (simp add: accept_mask_def Let_def)

lemma accept_mask_Cons:
  "accept_mask (x # r) us =
     (if fgt x (Fin 0) then True # accept_mask r us
      else (case us of [] \<Rightarrow> False # accept_mask r []
            | u # us' \<Rightarrow> fgt x (np_log u) # accept_mask r us'))"
  by (cases us) (simp_all add: accept_mask_def Let_def)

lemma length_accept_mask [simp]: "length (accept_mask r us) = length r"
  by (simp add: accept_mask_def Let_def)

lemma accept_mask_positive:
  "w < length r \<Longrightarrow> fgt (r ! w) (Fin 0) \<Longrightarrow> accept_mask r us ! w"
proof (induction r arbitrary: w us)
  case Nil
  then show ?case by simp
next
  case (Cons x r)
  show ?case
  proof (cases w)
    case 0
    with Cons.prems show ?thesis by (simp add: accept_mask_Cons)
  next
    case (Suc v)
    with Cons.prems have "accept_mask r us' ! v" for us'
      by (intro Cons.IH) simp_all
    with Suc show ?thesis by (simp add: accept_mask_Cons split: list.splits)
  qed
qed

text \<open>A walker left open gets the draw whose index is the number of open walkers
  before it.\<close>

lemma accept_mask_worse:
  "w < length r \<Longrightarrow> \<not> fgt (r ! w) (Fin 0) \<Longrightarrow> length us = nworse r \<Longrightarrow>
   accept_mask r us ! w = fgt (r ! w) (np_log (us ! nworse (take w r)))"
proof (induction r arbitrary: w us)
  case Nil
  then show ?case by simp
next
  case (Cons x r)
  show ?case
  proof (cases w)
    case 0
    with Cons.prems show ?thesis
      by (cases us) (simp_all add: accept_mask_Cons nworse_def)
  next
    case (Suc v)
    show ?thesis
    proof (cases "fgt x (Fin 0)")
      case True
      with Cons.prems Suc
      have "accept_mask r us ! v = fgt (r ! v) (np_log (us ! nworse (take v r)))"
        by (intro Cons.IH) (simp_all add: nworse_def)
      with True Suc show ?thesis by (simp add: accept_mask_Cons nworse_def)
    next
      case False
      with Cons.prems obtain u us' where us: "us = u # us'" and len: "length us' = nworse r"
        by (cases us) (simp_all add: nworse_def)
      with Cons.prems Suc
      have "accept_mask r us' ! v = fgt (r ! v) (np_log (us' ! nworse (take v r)))"
        by (intro Cons.IH) simp_all
      with False Suc us show ?thesis by (simp add: accept_mask_Cons nworse_def)
    qed
  qed
qed

lemma fgt_NInf_iff: "\<not> fgt x (Fin 0) \<Longrightarrow> fgt x NInf \<longleftrightarrow> (\<exists>y. x = Fin y)"
  by (cases x) simp_all

subsection \<open>The steps of one pass of the loop\<close>

lemma store_None:
  assumes "store r acc s = (None, s')"
  shows "iterations s < length (chain_h s) \<and> iterations s < length (lnpost_h s) \<and>
         iterations s < length (lnprop_h s) \<and> iterations s < length (acceptance_h s) \<and>
         s' = s\<lparr>chain_h := (chain_h s)[iterations s := mats s (fst r)],
                lnpost_h := (lnpost_h s)[iterations s := vecs s (fst (snd r))],
                lnprop_h := (lnprop_h s)[iterations s := vecs s (snd (snd r))],
                acceptance_h := (acceptance_h s)[iterations s := acc],
                iterations := Suc (iterations s)\<rparr>"
  using assms by (auto simp: store_def Let_def split: prod.splits if_splits)

lemma store_Some:
  assumes "store r acc s = (Some e, s')"
  shows "e = IndexError \<and> iterations s' = iterations s \<and>
         length (chain_h s') = length (chain_h s) \<and> length (lnpost_h s') = length (lnpost_h s) \<and>
         length (lnprop_h s') = length (lnprop_h s) \<and>
         length (acceptance_h s') = length (acceptance_h s) \<and>
         \<not> (iterations s < length (chain_h s) \<and> iterations s < length (lnpost_h s) \<and>
         iterations s < length (lnprop_h s) \<and> iterations s < length (acceptance_h s))"
  using assms by (auto simp: store_def Let_def split: prod.splits if_splits)

lemma update_proposal_None:
  assumes "update_proposal ui r s = (None, s')"
  shows "ui \<noteq> 0 \<and> s' = (if int (iterations s) mod ui = 0 then optimized_kde (mats s (fst r)) s else s)"
  using assms by (auto simp: update_proposal_def split: prod.splits if_splits)

lemma update_proposal_Some:
  assumes "update_proposal ui r s = (Some e, s')"
  shows "ui = 0 \<and> e = ZeroDivisionError \<and> s' = s"
  using assms by (auto simp: update_proposal_def split: prod.splits if_splits)

lemma optimized_kde_fields [simp]:
  "vecs (optimized_kde p s) = vecs s" "mats (optimized_kde p s) = mats s"
  "brk (optimized_kde p s) = brk s" "rng (optimized_kde p s) = rng s"
  "npools (optimized_kde p s) = npools s" "nwalkers (optimized_kde p s) = nwalkers s"
  "dim (optimized_kde p s) = dim s" "iterations (optimized_kde p s) = iterations s"
  "pool (optimized_kde p s) = pool s" "processes (optimized_kde p s) = processes s"
  "chain_h (optimized_kde p s) = chain_h s" "lnpost_h (optimized_kde p s) = lnpost_h s"
  "lnprop_h (optimized_kde p s) = lnprop_h s" "acceptance_h (optimized_kde p s) = acceptance_h s"
  "failed_p (optimized_kde p s) = failed_p s"
  "kde (optimized_kde p s) = Some (KDE (length (fit_log s)) p)"
  "fit_log (optimized_kde p s) = fit_log s @ [(iterations s, p)]"
  by (simp_all add: optimized_kde_def)

lemma update_walkers_fields [simp]:
  "brk (update_walkers r acc a b c s) = brk s" "rng (update_walkers r acc a b c s) = rng s"
  "fit_log (update_walkers r acc a b c s) = fit_log s"
  "npools (update_walkers r acc a b c s) = npools s" "nwalkers (update_walkers r acc a b c s) = nwalkers s"
  "dim (update_walkers r acc a b c s) = dim s" "iterations (update_walkers r acc a b c s) = iterations s"
  "kde (update_walkers r acc a b c s) = kde s"
  "pool (update_walkers r acc a b c s) = pool s" "processes (update_walkers r acc a b c s) = processes s"
  "chain_h (update_walkers r acc a b c s) = chain_h s" "lnpost_h (update_walkers r acc a b c s) = lnpost_h s"
  "lnprop_h (update_walkers r acc a b c s) = lnprop_h s" "acceptance_h (update_walkers r acc a b c s) = acceptance_h s"
  "failed_p (update_walkers r acc a b c s) = failed_p s"
  by (simp_all add: update_walkers_def Let_def split: prod.splits)

lemma rollback_fields [simp]:
  "vecs (rollback k s) = vecs s" "mats (rollback k s) = mats s"
  "brk (rollback k s) = brk s" "rng (rollback k s) = rng s"
  "fit_log (rollback k s) = fit_log s" "nwalkers (rollback k s) = nwalkers s"
  "dim (rollback k s) = dim s" "iterations (rollback k s) = iterations s"
  "kde (rollback k s) = kde s" "processes (rollback k s) = processes s"
  "chain_h (rollback k s) = py_take k (chain_h s)" "lnpost_h (rollback k s) = py_take k (lnpost_h s)"
  "lnprop_h (rollback k s) = py_take k (lnprop_h s)"
  "acceptance_h (rollback k s) = py_take k (acceptance_h s)"
  "failed_p (rollback k s) = failed_p s"
  "pool (rollback k s) = (if processes s \<noteq> Some 1 then Some (npools s) else pool s)"
  "npools (rollback k s) = (if processes s \<noteq> Some 1 then Suc (npools s) else npools s)"
  by (simp_all add: rollback_def new_Pool_def Let_def)

lemma prealloc_fields [simp]:
  "vecs (prealloc n s) = vecs s" "mats (prealloc n s) = mats s"
  "brk (prealloc n s) = brk s" "rng (prealloc n s) = rng s"
  "fit_log (prealloc n s) = fit_log s" "npools (prealloc n s) = npools s"
  "nwalkers (prealloc n s) = nwalkers s"
  "dim (prealloc n s) = dim s" "iterations (prealloc n s) = iterations s"
  "kde (prealloc n s) = kde s" "pool (prealloc n s) = pool s" "processes (prealloc n s) = processes s"
  "failed_p (prealloc n s) = failed_p s"
  "length (chain_h (prealloc n s)) = length (chain_h s) + n"
  "length (lnpost_h (prealloc n s)) = length (lnpost_h s) + n"
  "length (lnprop_h (prealloc n s)) = length (lnprop_h s) + n"
  "length (acceptance_h (prealloc n s)) = length (acceptance_h s) + n"
  by (simp_all add: prealloc_def)

lemma take_prealloc [simp]:
  "take (length (chain_h s)) (chain_h (prealloc n s)) = chain_h s"
  "take (length (lnpost_h s)) (lnpost_h (prealloc n s)) = lnpost_h s"
  "take (length (lnprop_h s)) (lnprop_h (prealloc n s)) = lnprop_h s"
  "take (length (acceptance_h s)) (acceptance_h (prealloc n s)) = acceptance_h s"
  by (simp_all add: prealloc_def)

lemma on_error_fields [simp]:
  "iterations (on_error e s) = iterations s"
  "vecs (on_error e s) = vecs s" "mats (on_error e s) = mats s" "brk (on_error e s) = brk s"
  "nwalkers (on_error e s) = nwalkers s" "dim (on_error e s) = dim s"
  "kde (on_error e s) = kde s" "fit_log (on_error e s) = fit_log s"
  "processes (on_error e s) = processes s"
  by (simp_all add: on_error_def)

lemma on_eval_error_fields [simp]:
  "iterations (on_eval_error e p s) = iterations s"
  "vecs (on_eval_error e p s) = vecs s" "mats (on_eval_error e p s) = mats s"
  "brk (on_eval_error e p s) = brk s"
  "nwalkers (on_eval_error e p s) = nwalkers s" "dim (on_eval_error e p s) = dim s"
  "kde (on_eval_error e p s) = kde s" "fit_log (on_eval_error e p s) = fit_log s"
  "processes (on_eval_error e p s) = processes s"
  by (simp_all add: on_eval_error_def)

lemma update_walkers_mats:
  "x \<noteq> fst r \<Longrightarrow> mats (update_walkers r acc p_p lnpost_p lnprop_p s) x = mats s x"
  by (cases r) (auto simp: update_walkers_def Let_def)

lemma update_walkers_vecs_other:
  "x \<noteq> fst (snd r) \<Longrightarrow> x \<noteq> snd (snd r) \<Longrightarrow>
     vecs (update_walkers r acc p_p lnpost_p lnprop_p s) x = vecs s x"
  by (cases r) (auto simp: update_walkers_def Let_def)

lemma update_walkers_lengths:
  "length (vecs (update_walkers r acc p_p lnpost_p lnprop_p s) x) = length (vecs s x)"
  by (cases r) (auto simp: update_walkers_def Let_def)

lemma update_walkers_lnpost:
  assumes "a \<noteq> b" "length acc = length (vecs s a)" "length lnpost_p = length (vecs s a)"
    "w < length (vecs s a)"
  shows "vecs (update_walkers (p, a, b) acc p_p lnpost_p lnprop_p s) a ! w =
           (if acc ! w then lnpost_p ! w else vecs s a ! w)"
proof (cases "True \<in> set acc")
  case True
  with assms show ?thesis by (simp add: update_walkers_def Let_def np_put_select_nth)
next
  case False
  with assms have "\<not> acc ! w" by (metis nth_mem)
  with False show ?thesis by (simp add: update_walkers_def)
qed

lemma update_walkers_lnprop:
  assumes "a \<noteq> b" "length acc = length (vecs s b)" "length lnprop_p = length (vecs s b)"
    "w < length (vecs s b)"
  shows "vecs (update_walkers (p, a, b) acc p_p lnpost_p lnprop_p s) b ! w =
           (if acc ! w then lnprop_p ! w else vecs s b ! w)"
proof (cases "True \<in> set acc")
  case True
  with assms show ?thesis by (simp add: update_walkers_def Let_def np_put_select_nth)
next
  case False
  with assms have "\<not> acc ! w" by (metis nth_mem)
  with False show ?thesis by (simp add: update_walkers_def)
qed

lemma draw_Inr:
  assumes "draw env N s = Inr (p_p, s1)"
  shows "\<exists>k. kde s = Some k \<and> p_p = kde_draw env k N (rng s) \<and> s1 = s\<lparr>rng := Suc (rng s)\<rparr>"
  using assms by (auto simp: draw_def split: option.splits)

subsection \<open>One pass of the loop\<close>

text \<open>What a pass of the loop that ends normally went through.\<close>

lemma sample_iter_None:
  assumes "sample_iter env ui r s = (None, s')"
  obtains p_p s1 lnpost_p lnprop_p acc s3 s4 where
    "draw env (nwalkers s) s = Inr (p_p, s1)"
    "lnprob_batch env (kde s1) p_p = Inr (lnpost_p, lnprop_p)"
    "acc = accept_mask (ln_mh_ratio lnpost_p (vecs s1 (fst (snd r))) (vecs s1 (snd (snd r))) lnprop_p)
             (uniform_draws env (rng s1)
                (ln_mh_ratio lnpost_p (vecs s1 (fst (snd r))) (vecs s1 (snd (snd r))) lnprop_p))"
    "s3 = update_walkers r acc p_p lnpost_p lnprop_p (s1\<lparr>rng := Suc (rng s1)\<rparr>)"
    "store r acc s3 = (None, s4)"
    "update_proposal ui r s4 = (None, s')"
  using assms
  by (auto simp: sample_iter_def Let_def split: sum.splits prod.splits option.splits)

lemma sample_iter_success:
  assumes "sample_iter env ui r s = (None, s')"
  shows "iterations s' = Suc (iterations s) \<and>
     iterations s < length (chain_h s) \<and> iterations s < length (lnpost_h s) \<and>
     iterations s < length (lnprop_h s) \<and> iterations s < length (acceptance_h s) \<and>
     length (chain_h s') = length (chain_h s) \<and> length (lnpost_h s') = length (lnpost_h s) \<and>
     length (lnprop_h s') = length (lnprop_h s) \<and>
     length (acceptance_h s') = length (acceptance_h s)"
proof -
  from assms obtain p_p s1 lnpost_p lnprop_p acc s3 s4 where
    d: "draw env (nwalkers s) s = Inr (p_p, s1)"
    and s3: "s3 = update_walkers r acc p_p lnpost_p lnprop_p (s1\<lparr>rng := Suc (rng s1)\<rparr>)"
    and st: "store r acc s3 = (None, s4)"
    and up: "update_proposal ui r s4 = (None, s')"
    by (rule sample_iter_None)
  from d have s1: "s1 = s\<lparr>rng := Suc (rng s)\<rparr>" using draw_Inr by blast
  from up have s': "s' = (if int (iterations s4) mod ui = 0 then optimized_kde (mats s4 (fst r)) s4 else s4)"
    using update_proposal_None by blast
  from store_None [OF st] s3 s1 s' show ?thesis
    by auto
qed

lemma sample_iter_frame:
  assumes "sample_iter env ui r s = (None, s')"
  shows "pool s' = pool s \<and> npools s' = npools s \<and> processes s' = processes s \<and>
         nwalkers s' = nwalkers s \<and> dim s' = dim s \<and> failed_p s' = failed_p s \<and> brk s' = brk s"
proof -
  from assms(1) obtain p_p s1 lnpost_p lnprop_p acc s3 s4 where
    d: "draw env (nwalkers s) s = Inr (p_p, s1)"
    and s3: "s3 = update_walkers r acc p_p lnpost_p lnprop_p (s1\<lparr>rng := Suc (rng s1)\<rparr>)"
    and st: "store r acc s3 = (None, s4)"
    and up: "update_proposal ui r s4 = (None, s')"
    by (rule sample_iter_None)
  from d have s1: "s1 = s\<lparr>rng := Suc (rng s)\<rparr>" using draw_Inr by blast
  from up have s': "s' = (if int (iterations s4) mod ui = 0 then optimized_kde (mats s4 (fst r)) s4 else s4)"
    using update_proposal_None by blast
  from store_None [OF st] s3 s1 s' show ?thesis
    by auto
qed

text \<open>Rows below the counter are never written again.\<close>

lemma sample_iter_prefix:
  assumes "sample_iter env ui r s = (None, s')" and "m \<le> iterations s"
  shows "take m (chain_h s') = take m (chain_h s) \<and>
         take m (lnpost_h s') = take m (lnpost_h s) \<and>
         take m (lnprop_h s') = take m (lnprop_h s) \<and>
         take m (acceptance_h s') = take m (acceptance_h s)"
proof -
  from assms(1) obtain p_p s1 lnpost_p lnprop_p acc s3 s4 where
    d: "draw env (nwalkers s) s = Inr (p_p, s1)"
    and s3: "s3 = update_walkers r acc p_p lnpost_p lnprop_p (s1\<lparr>rng := Suc (rng s1)\<rparr>)"
    and st: "store r acc s3 = (None, s4)"
    and up: "update_proposal ui r s4 = (None, s')"
    by (rule sample_iter_None)
  from d have s1: "s1 = s\<lparr>rng := Suc (rng s)\<rparr>" using draw_Inr by blast
  from up have s': "s' = (if int (iterations s4) mod ui = 0 then optimized_kde (mats s4 (fst r)) s4 else s4)"
    using update_proposal_None by blast
  from store_None [OF st] s3 s1 s' assms(2) show ?thesis
    by auto
qed

lemma sample_iter_iterations:
  "iterations (snd (sample_iter env ui r s)) \<le> Suc (iterations s)"
  by (auto simp: sample_iter_def Let_def draw_def
      dest!: store_None store_Some update_proposal_None update_proposal_Some
      split: sum.splits prod.splits option.splits)

lemma sample_iter_eval_error:
  assumes "draw env (nwalkers s) s = Inr (p_p, s1)"
    and "lnprob_batch env (kde s1) p_p = Inl e"
  shows "sample_iter env ui r s = (Some e, on_eval_error e p_p s1)"
  using assms by (simp add: sample_iter_def)

lemma sample_iter_acceptance_row:
  assumes "sample_iter env ui r s = (None, s')"
    and "draw env (nwalkers s) s = Inr (p_p, s1)"
    and "lnprob_batch env (kde s1) p_p = Inr (lnpost_p, lnprop_p)"
  shows "acceptance_h s' ! iterations s =
           accept_mask (ln_mh_ratio lnpost_p (vecs s (fst (snd r))) (vecs s (snd (snd r))) lnprop_p)
             (uniform_draws env (rng s1)
               (ln_mh_ratio lnpost_p (vecs s (fst (snd r))) (vecs s (snd (snd r))) lnprop_p))"
proof -
  from assms(1) obtain p_p' s1' lnpost_p' lnprop_p' acc s3 s4 where
    d: "draw env (nwalkers s) s = Inr (p_p', s1')"
    and e: "lnprob_batch env (kde s1') p_p' = Inr (lnpost_p', lnprop_p')"
    and acc: "acc = accept_mask (ln_mh_ratio lnpost_p' (vecs s1' (fst (snd r))) (vecs s1' (snd (snd r))) lnprop_p')
             (uniform_draws env (rng s1')
                (ln_mh_ratio lnpost_p' (vecs s1' (fst (snd r))) (vecs s1' (snd (snd r))) lnprop_p'))"
    and s3: "s3 = update_walkers r acc p_p' lnpost_p' lnprop_p' (s1'\<lparr>rng := Suc (rng s1')\<rparr>)"
    and st: "store r acc s3 = (None, s4)"
    and up: "update_proposal ui r s4 = (None, s')"
    by (rule sample_iter_None)
  from d e assms(2,3) have eq: "p_p' = p_p" "s1' = s1" "lnpost_p' = lnpost_p" "lnprop_p' = lnprop_p"
    by simp_all
  from d have s1: "s1' = s\<lparr>rng := Suc (rng s)\<rparr>" using draw_Inr by blast
  from up have s': "s' = (if int (iterations s4) mod ui = 0 then optimized_kde (mats s4 (fst r)) s4 else s4)"
    using update_proposal_None by blast
  from store_None [OF st] s3 s' have "acceptance_h s' ! iterations s = acc"
    by (auto simp: s1)
  moreover from s1 eq have "vecs s1 = vecs s" by auto
  ultimately show ?thesis using acc eq by simp
qed

lemma sample_iter_refit:
  assumes "sample_iter env ui r s = (None, s')"
  shows "fit_log s' = fit_log s @
            (if ui dvd int (Suc (iterations s)) then [(Suc (iterations s), chain_h s' ! iterations s)]
             else []) \<and>
         kde s' = (if ui dvd int (Suc (iterations s))
                   then Some (KDE (length (fit_log s)) (chain_h s' ! iterations s)) else kde s)"
proof -
  from assms(1) obtain p_p s1 lnpost_p lnprop_p acc s3 s4 where
    d: "draw env (nwalkers s) s = Inr (p_p, s1)"
    and s3: "s3 = update_walkers r acc p_p lnpost_p lnprop_p (s1\<lparr>rng := Suc (rng s1)\<rparr>)"
    and st: "store r acc s3 = (None, s4)"
    and up: "update_proposal ui r s4 = (None, s')"
    by (rule sample_iter_None)
  from d have s1: "s1 = s\<lparr>rng := Suc (rng s)\<rparr>" using draw_Inr by blast
  from up have ui: "ui \<noteq> 0"
    and s': "s' = (if int (iterations s4) mod ui = 0 then optimized_kde (mats s4 (fst r)) s4 else s4)"
    using update_proposal_None by blast+
  have dv: "ui dvd int (Suc (iterations s)) \<longleftrightarrow> int (Suc (iterations s)) mod ui = 0"
    by (simp add: dvd_eq_mod_eq_0)
  from store_None [OF st] s3 s1 s' show ?thesis
    unfolding dv by auto
qed

lemma sample_iter_store_frame:
  assumes "sample_iter env ui r s = (None, s')"
  shows "(\<forall>x. x \<noteq> fst r \<longrightarrow> mats s' x = mats s x) \<and>
         (\<forall>x. x \<noteq> fst (snd r) \<longrightarrow> x \<noteq> snd (snd r) \<longrightarrow> vecs s' x = vecs s x) \<and>
         (\<forall>x. length (vecs s' x) = length (vecs s x)) \<and>
         chain_h s' ! iterations s = mats s' (fst r) \<and>
         lnpost_h s' ! iterations s = vecs s' (fst (snd r)) \<and>
         lnprop_h s' ! iterations s = vecs s' (snd (snd r))"
proof -
  from assms(1) obtain p_p s1 lnpost_p lnprop_p acc s3 s4 where
    d: "draw env (nwalkers s) s = Inr (p_p, s1)"
    and s3: "s3 = update_walkers r acc p_p lnpost_p lnprop_p (s1\<lparr>rng := Suc (rng s1)\<rparr>)"
    and st: "store r acc s3 = (None, s4)"
    and up: "update_proposal ui r s4 = (None, s')"
    by (rule sample_iter_None)
  from d have s1: "s1 = s\<lparr>rng := Suc (rng s)\<rparr>" using draw_Inr by blast
  from up have s': "s' = (if int (iterations s4) mod ui = 0 then optimized_kde (mats s4 (fst r)) s4 else s4)"
    using update_proposal_None by blast
  from store_None [OF st] s3 s1 s' show ?thesis
    by (auto simp: update_walkers_mats update_walkers_vecs_other update_walkers_lengths)
qed

lemma sample_iter_walker:
  assumes it: "sample_iter env ui (p, a, b) s = (None, s')" and ab: "a \<noteq> b"
    and ok: "draws_ok env"
    and la: "length (vecs s a) = nwalkers s" and lb: "length (vecs s b) = nwalkers s"
  shows "\<exists>kd batch vals props.
           lnprob_batch env (Some kd) batch = Inr (vals, props) \<and>
           length vals = nwalkers s \<and> length props = nwalkers s \<and>
           (\<forall>w < nwalkers s.
              vecs s' a ! w = (if acceptance_h s' ! iterations s ! w then vals ! w else vecs s a ! w) \<and>
              vecs s' b ! w = (if acceptance_h s' ! iterations s ! w then props ! w else vecs s b ! w))"
proof -
  from it obtain p_p s1 lnpost_p lnprop_p acc s3 s4 where
    d: "draw env (nwalkers s) s = Inr (p_p, s1)"
    and e: "lnprob_batch env (kde s1) p_p = Inr (lnpost_p, lnprop_p)"
    and acc: "acc = accept_mask (ln_mh_ratio lnpost_p (vecs s1 (fst (snd (p, a, b)))) (vecs s1 (snd (snd (p, a, b)))) lnprop_p)
             (uniform_draws env (rng s1)
                (ln_mh_ratio lnpost_p (vecs s1 (fst (snd (p, a, b)))) (vecs s1 (snd (snd (p, a, b)))) lnprop_p))"
    and s3: "s3 = update_walkers (p, a, b) acc p_p lnpost_p lnprop_p (s1\<lparr>rng := Suc (rng s1)\<rparr>)"
    and st: "store (p, a, b) acc s3 = (None, s4)"
    and up: "update_proposal ui (p, a, b) s4 = (None, s')"
    by (rule sample_iter_None)
  from d obtain kd where kd: "kde s = Some kd" and pp: "p_p = kde_draw env kd (nwalkers s) (rng s)"
    and s1: "s1 = s\<lparr>rng := Suc (rng s)\<rparr>" using draw_Inr by blast
  from pp ok have lpp: "length p_p = nwalkers s" by (simp add: draws_ok_def)
  with lnprob_batch_length [OF e] have lv: "length lnpost_p = nwalkers s" "length lnprop_p = nwalkers s"
    by simp_all
  have lacc: "length acc = nwalkers s"
    by (simp add: acc length_ln_mh_ratio lv s1 la lb)
  from up have s': "s' = (if int (iterations s4) mod ui = 0 then optimized_kde (mats s4 (fst (p, a, b))) s4 else s4)"
    using update_proposal_None by blast
  from store_None [OF st] s3 s' have row: "acceptance_h s' ! iterations s = acc"
    and v: "vecs s' = vecs s3"
    by (auto simp: s1)
  have "vecs s3 a ! w = (if acc ! w then lnpost_p ! w else vecs s a ! w) \<and>
        vecs s3 b ! w = (if acc ! w then lnprop_p ! w else vecs s b ! w)" if "w < nwalkers s" for w
    unfolding s3 using that ab la lb lv lacc
    by (simp add: update_walkers_lnpost update_walkers_lnprop s1)
  with e kd lv row v show ?thesis
    by (intro exI [of _ kd] exI [of _ p_p] exI [of _ lnpost_p] exI [of _ lnprop_p]) (simp add: s1)
qed

subsection \<open>The loop\<close>

lemma sample_loop_success:
  "sample_loop env ui r n s = (None, s') \<Longrightarrow>
     iterations s' = iterations s + n \<and>
     length (chain_h s') = length (chain_h s) \<and> length (lnpost_h s') = length (lnpost_h s) \<and>
     length (lnprop_h s') = length (lnprop_h s) \<and>
     length (acceptance_h s') = length (acceptance_h s)"
proof (induction n arbitrary: s)
  case 0
  then show ?case by simp
next
  case (Suc n)
  from Suc.prems obtain s1 where it: "sample_iter env ui r s = (None, s1)"
    and lp: "sample_loop env ui r n s1 = (None, s')"
    by (auto split: prod.splits option.splits)
  from sample_iter_success [OF it] Suc.IH [OF lp] show ?case by simp
qed

lemma sample_loop_iterations:
  "iterations (snd (sample_loop env ui r n s)) \<le> iterations s + n"
proof (induction n arbitrary: s)
  case 0
  then show ?case by simp
next
  case (Suc n)
  show ?case
  proof (cases "sample_iter env ui r s")
    case (Pair x s1)
    with sample_iter_iterations [of env ui r s] have le: "iterations s1 \<le> Suc (iterations s)"
      by simp
    show ?thesis
    proof (cases x)
      case None
      with Pair Suc.IH [of s1] le show ?thesis by simp
    next
      case (Some e)
      with Pair le show ?thesis by simp
    qed
  qed
qed

lemma sample_loop_add:
  "sample_loop env ui r (j + m) s =
     (case sample_loop env ui r j s of
        (Some e, s') \<Rightarrow> (Some e, s')
      | (None, s') \<Rightarrow> sample_loop env ui r m s')"
  by (induction j arbitrary: s) (auto split: prod.splits option.splits)

lemma sample_loop_prefix:
  "sample_loop env ui r n s = (None, s') \<Longrightarrow> m \<le> iterations s \<Longrightarrow>
     take m (chain_h s') = take m (chain_h s) \<and>
     take m (lnpost_h s') = take m (lnpost_h s) \<and>
     take m (lnprop_h s') = take m (lnprop_h s) \<and>
     take m (acceptance_h s') = take m (acceptance_h s)"
proof (induction n arbitrary: s)
  case 0
  then show ?case by simp
next
  case (Suc n)
  from Suc.prems obtain s1 where it: "sample_iter env ui r s = (None, s1)"
    and lp: "sample_loop env ui r n s1 = (None, s')"
    by (auto split: prod.splits option.splits)
  from sample_iter_success [OF it] Suc.prems have "m \<le> iterations s1" by simp
  from Suc.IH [OF lp this] sample_iter_prefix [OF it Suc.prems(2)] show ?case by simp
qed

lemma sample_loop_frame:
  "sample_loop env ui r n s = (None, s') \<Longrightarrow>
     pool s' = pool s \<and> npools s' = npools s \<and> processes s' = processes s \<and>
     nwalkers s' = nwalkers s \<and> dim s' = dim s \<and> failed_p s' = failed_p s \<and> brk s' = brk s"
proof (induction n arbitrary: s)
  case 0
  then show ?case by simp
next
  case (Suc n)
  from Suc.prems obtain s1 where it: "sample_iter env ui r s = (None, s1)"
    and lp: "sample_loop env ui r n s1 = (None, s')"
    by (auto split: prod.splits option.splits)
  from Suc.IH [OF lp] sample_iter_frame [OF it] show ?case by simp
qed

lemma sample_loop_refit:
  "sample_loop env ui r n s = (None, s') \<Longrightarrow>
     fit_log s' = fit_log s @
        map (\<lambda>j. (j, chain_h s' ! (j - 1))) (refit_steps ui (iterations s) n) \<and>
     kde s' = (if refit_steps ui (iterations s) n = [] then kde s
               else Some (KDE (length (fit_log s') - 1)
                            (chain_h s' ! (last (refit_steps ui (iterations s) n) - 1))))"
proof (induction n arbitrary: s)
  case 0
  then show ?case by simp
next
  case (Suc n)
  from Suc.prems obtain s1 where it: "sample_iter env ui r s = (None, s1)"
    and lp: "sample_loop env ui r n s1 = (None, s')"
    by (auto split: prod.splits option.splits)
  note ok = sample_iter_success [OF it]
  then have it1: "iterations s1 = Suc (iterations s)" by simp
  from sample_loop_prefix [OF lp, of "Suc (iterations s)"] it1
  have "take (Suc (iterations s)) (chain_h s') = take (Suc (iterations s)) (chain_h s1)"
    by simp
  then have row: "chain_h s' ! iterations s = chain_h s1 ! iterations s"
    by (metis lessI nth_take)
  note step = sample_iter_refit [OF it]
  note IH = Suc.IH [OF lp, unfolded it1]
  show ?case
  proof (cases "refit_steps ui (Suc (iterations s)) n = []")
    case True
    with IH step row show ?thesis by (simp add: refit_steps_Suc)
  next
    case False
    with IH step row show ?thesis by (simp add: refit_steps_Suc)
  qed
qed

lemma sample_loop_store_frame:
  "sample_loop env ui r n s = (None, s') \<Longrightarrow>
     (\<forall>x. x \<noteq> fst r \<longrightarrow> mats s' x = mats s x) \<and>
     (\<forall>x. x \<noteq> fst (snd r) \<longrightarrow> x \<noteq> snd (snd r) \<longrightarrow> vecs s' x = vecs s x) \<and>
     (\<forall>x. length (vecs s' x) = length (vecs s x)) \<and>
     (0 < n \<longrightarrow> chain_h s' ! (iterations s' - 1) = mats s' (fst r) \<and>
         lnpost_h s' ! (iterations s' - 1) = vecs s' (fst (snd r)) \<and>
         lnprop_h s' ! (iterations s' - 1) = vecs s' (snd (snd r)))"
proof (induction n arbitrary: s)
  case 0
  then show ?case by simp
next
  case (Suc n)
  from Suc.prems obtain s1 where it: "sample_iter env ui r s = (None, s1)"
    and lp: "sample_loop env ui r n s1 = (None, s')"
    by (auto split: prod.splits option.splits)
  note step = sample_iter_store_frame [OF it]
  note IH = Suc.IH [OF lp]
  show ?case
  proof (cases n)
    case 0
    with lp have "s' = s1" by simp
    with step sample_iter_success [OF it] show ?thesis by simp
  next
    case (Suc m)
    with IH step show ?thesis by simp
  qed
qed

lemma sample_loop_walker:
  assumes "sample_loop env ui (p, a, b) n s = (None, s')" and "a \<noteq> b" and "draws_ok env"
    and "length (vecs s a) = nwalkers s" and "length (vecs s b) = nwalkers s"
    and "w < nwalkers s"
  shows "if \<exists>j. iterations s \<le> j \<and> j < iterations s + n \<and> acceptance_h s' ! j ! w
         then \<exists>kd batch vals props.
                lnprob_batch env (Some kd) batch = Inr (vals, props) \<and>
                length vals = nwalkers s \<and> length props = nwalkers s \<and>
                vecs s' a ! w = vals ! w \<and> vecs s' b ! w = props ! w
         else vecs s' a ! w = vecs s a ! w \<and> vecs s' b ! w = vecs s b ! w"
  using assms
proof (induction n arbitrary: s)
  case 0
  then show ?case by auto
next
  case (Suc n)
  let ?P = "\<lambda>j. acceptance_h s' ! j ! w"
  from Suc.prems(1) obtain s1 where it: "sample_iter env ui (p, a, b) s = (None, s1)"
    and lp: "sample_loop env ui (p, a, b) n s1 = (None, s')"
    by (auto split: prod.splits option.splits)
  note ok = sample_iter_success [OF it]
  then have it1: "iterations s1 = Suc (iterations s)" by simp
  have nw: "nwalkers s1 = nwalkers s" using sample_iter_frame [OF it] by simp
  have len: "length (vecs s1 a) = nwalkers s1" "length (vecs s1 b) = nwalkers s1"
    using sample_iter_store_frame [OF it] Suc.prems(4,5) nw by simp_all
  from sample_loop_prefix [OF lp, of "Suc (iterations s)"] it1
  have "take (Suc (iterations s)) (acceptance_h s') = take (Suc (iterations s)) (acceptance_h s1)"
    by simp
  then have row: "acceptance_h s' ! iterations s = acceptance_h s1 ! iterations s"
    by (metis lessI nth_take)
  from sample_iter_walker [OF it Suc.prems(2,3,4,5)] Suc.prems(6)
  obtain kd batch vals props where
    ev: "lnprob_batch env (Some kd) batch = Inr (vals, props)"
      "length vals = nwalkers s" "length props = nwalkers s"
    and va: "vecs s1 a ! w = (if ?P (iterations s) then vals ! w else vecs s a ! w)"
    and vb: "vecs s1 b ! w = (if ?P (iterations s) then props ! w else vecs s b ! w)"
    unfolding row by blast
  have split: "(\<exists>j. iterations s \<le> j \<and> j < iterations s + Suc n \<and> ?P j) \<longleftrightarrow>
      ?P (iterations s) \<or> (\<exists>j. iterations s1 \<le> j \<and> j < iterations s1 + n \<and> ?P j)"
    unfolding it1 by (rule ex_range_Suc)
  note IH = Suc.IH [OF lp Suc.prems(2,3) len, unfolded nw, OF Suc.prems(6)]
  show ?case
  proof (cases "\<exists>j. iterations s1 \<le> j \<and> j < iterations s1 + n \<and> ?P j")
    case True
    with split have "\<exists>j. iterations s \<le> j \<and> j < iterations s + Suc n \<and> ?P j" by simp
    moreover from True IH
    have "\<exists>kd batch vals props.
                lnprob_batch env (Some kd) batch = Inr (vals, props) \<and>
                length vals = nwalkers s \<and> length props = nwalkers s \<and>
                vecs s' a ! w = vals ! w \<and> vecs s' b ! w = props ! w"
      by (simp only: if_True)
    ultimately show ?thesis by (simp only: if_True)
  next
    case later: False
    with IH have "vecs s' a ! w = vecs s1 a ! w \<and> vecs s' b ! w = vecs s1 b ! w"
      by (simp only: if_False)
    then have eq: "vecs s' a ! w = vecs s1 a ! w" "vecs s' b ! w = vecs s1 b ! w"
      by simp_all
    show ?thesis
    proof (cases "?P (iterations s)")
      case True
      with split have "\<exists>j. iterations s \<le> j \<and> j < iterations s + Suc n \<and> ?P j" by simp
      moreover from True eq va vb ev
      have "\<exists>kd batch vals props.
                lnprob_batch env (Some kd) batch = Inr (vals, props) \<and>
                length vals = nwalkers s \<and> length props = nwalkers s \<and>
                vecs s' a ! w = vals ! w \<and> vecs s' b ! w = props ! w"
        by auto
      ultimately show ?thesis by (simp only: if_True)
    next
      case False
      with later split have "\<not> (\<exists>j. iterations s \<le> j \<and> j < iterations s + Suc n \<and> ?P j)"
        by simp
      moreover from False eq va vb
      have "vecs s' a ! w = vecs s a ! w \<and> vecs s' b ! w = vecs s b ! w" by simp
      ultimately show ?thesis by (simp only: if_False)
    qed
  qed
qed

subsection \<open>The whole call\<close>

lemma sample_init_fields:
  assumes "sample_init env p0 lnpost0 lnprop0 s = (x, s1)"
  shows "chain_h s1 = chain_h s \<and> lnpost_h s1 = lnpost_h s \<and> lnprop_h s1 = lnprop_h s \<and>
     acceptance_h s1 = acceptance_h s \<and> iterations s1 = iterations s \<and>
     failed_p s1 = failed_p s \<and> pool s1 = pool s \<and> npools s1 = npools s \<and>
     nwalkers s1 = nwalkers s \<and> dim s1 = dim s \<and> processes s1 = processes s"
  using assms
  by (auto simp: sample_init_def draw_def alloc_mat_def alloc_vec_def Let_def
      split: sum.splits prod.splits option.splits if_splits)

lemma sample_init_given:
  assumes "sample_init env (Some c) (Some a) (Some b) s = (x, s0)"
  shows "x = Inr (brk s, a, b) \<and> vecs s0 = vecs s \<and> mats s0 = (mats s)(brk s := mats s c)"
  using assms by (auto simp: sample_init_def alloc_mat_def Let_def split: if_splits)

lemma sample_Inr:
  assumes "sample env p0 lnpost0 lnprop0 k ui s = (Inr r, s')"
  obtains s1 where "sample_init env p0 lnpost0 lnprop0 s = (Inr r, s1)" "0 \<le> k"
    "sample_loop env ui r (nat k) (prealloc (nat k) s1) = (None, s')"
  using assms
  by (auto simp: sample_def split: sum.splits prod.splits option.splits if_splits)

lemma sample_Inr_iterations:
  assumes "sample env p0 lnpost0 lnprop0 k ui s = (Inr r, s')"
  shows "0 \<le> k \<and> iterations s' = iterations s + nat k"
proof -
  from assms obtain s1 where init: "sample_init env p0 lnpost0 lnprop0 s = (Inr r, s1)"
    and k: "0 \<le> k"
    and lp: "sample_loop env ui r (nat k) (prealloc (nat k) s1) = (None, s')"
    by (rule sample_Inr)
  from sample_loop_success [OF lp] sample_init_fields [OF init] k show ?thesis by simp
qed

lemma sample_iterations_le:
  "iterations (snd (sample env p0 lnpost0 lnprop0 k ui s)) \<le> iterations s + nat k"
proof (cases "sample_init env p0 lnpost0 lnprop0 s")
  case (Pair x s1)
  note f = sample_init_fields [OF Pair]
  show ?thesis
  proof (cases x)
    case (Inl e)
    with Pair f show ?thesis by (simp add: sample_def)
  next
    case (Inr r)
    show ?thesis
    proof (cases "k < 0")
      case True
      with Pair Inr f show ?thesis by (simp add: sample_def)
    next
      case False
      from sample_loop_iterations [of env ui r "nat k" "prealloc (nat k) s1"] f
      have "iterations (snd (sample_loop env ui r (nat k) (prealloc (nat k) s1))) \<le> iterations s + nat k"
        by simp
      with Pair Inr False show ?thesis
        by (auto simp: sample_def split: prod.splits option.splits)
    qed
  qed
qed

subsection \<open>The lengths of the histories\<close>

text \<open>
  Claim C3: a call of \<^verbatim>\<open>sample(iterations=k)\<close> that returns, from a sampler whose
  histories are as long as its iteration counter says, lengthens the chain history by
  exactly \<open>k\<close>, leaves the four histories equally long, and that length is the iteration
  counter.
\<close>

theorem sample_success_histories:
  assumes "hist_inv s"
    and "sample env p0 lnpost0 lnprop0 k update_interval s = (Inr r, s')"
  shows "int (length (chain_h s')) = int (length (chain_h s)) + k \<and>
         length (lnpost_h s') = length (chain_h s') \<and>
         length (lnprop_h s') = length (chain_h s') \<and>
         length (acceptance_h s') = length (chain_h s') \<and>
         length (chain_h s') = iterations s'"
proof -
  from assms(2) obtain s1 where init: "sample_init env p0 lnpost0 lnprop0 s = (Inr r, s1)"
    and k: "0 \<le> k"
    and lp: "sample_loop env update_interval r (nat k) (prealloc (nat k) s1) = (None, s')"
    by (rule sample_Inr)
  from sample_loop_success [OF lp] sample_init_fields [OF init] assms(1) k
  show ?thesis by (simp add: hist_inv_def)
qed

theorem sample_success_histories_witness:
  "hist_inv demo_state \<and>
   fst (sample demo_env (Some 0) None None 2 10 demo_state) = Inr (1, 2, 3) \<and>
   length (chain_h (snd (sample demo_env (Some 0) None None 2 10 demo_state))) = 2 \<and>
   iterations (snd (sample demo_env (Some 0) None None 2 10 demo_state)) = 2"
proof -
  have f: "fst (sample demo_env (Some 0) None None 2 10 demo_state) = Inr (1, 2, 3)"
    by (simp add: sampler_defs numeral_2_eq_2)
  then have "sample demo_env (Some 0) None None 2 10 demo_state =
      (Inr (1, 2, 3), snd (sample demo_env (Some 0) None None 2 10 demo_state))"
    by (simp add: prod_eq_iff)
  from sample_success_histories [OF hist_inv_demo this] f hist_inv_demo
  show ?thesis by (simp add: demo_state_def init_def alloc_mat_def new_Pool_def)
qed

subsection \<open>An evaluation that raises inside the loop\<close>

text \<open>
  Claim C1: when, in a call of \<^verbatim>\<open>sample\<close> on a sampler whose histories agree with its
  counter, the first \<open>j\<close> passes of the loop have been committed and the evaluation of
  the next proposed batch raises an \<^verbatim>\<open>Exception\<close>, the call raises that same exception;
  the four histories are cut back to the rows committed so far (the rows from before the
  call and the \<open>j\<close> new ones), the batch is in \<^verbatim>\<open>failed_p\<close>, and the sampler is left with
  histories that agree with its counter, and with a new pool if it runs one.
\<close>

theorem sample_eval_failure:
  assumes inv: "hist_inv s"
    and init: "sample_init env p0 lnpost0 lnprop0 s = (Inr r, s0)"
    and k: "j < nat k"
    and ran: "sample_loop env update_interval r j (prealloc (nat k) s0) = (None, sj)"
    and drawn: "draw env (nwalkers sj) sj = Inr (p_p, sd)"
    and raised: "lnprob_batch env (kde sd) p_p = Inl e"
    and exc: "is_Exception e"
  shows "\<exists>s'. sample env p0 lnpost0 lnprop0 k update_interval s = (Inl e, s') \<and>
           failed_p s' = Some p_p \<and>
           iterations s' = iterations s + j \<and> hist_inv s' \<and>
           chain_h s' = take (iterations s + j) (chain_h sj) \<and>
           lnpost_h s' = take (iterations s + j) (lnpost_h sj) \<and>
           lnprop_h s' = take (iterations s + j) (lnprop_h sj) \<and>
           acceptance_h s' = take (iterations s + j) (acceptance_h sj) \<and>
           take (iterations s) (chain_h s') = chain_h s \<and>
           take (iterations s) (lnpost_h s') = lnpost_h s \<and>
           take (iterations s) (lnprop_h s') = lnprop_h s \<and>
           take (iterations s) (acceptance_h s') = acceptance_h s \<and>
           (processes s \<noteq> Some 1 \<longrightarrow> pool s' = Some (npools s) \<and> npools s' = Suc (npools s))"
proof -
  define s' where "s' = on_eval_error e p_p sd"
  from k obtain m where nk: "nat k = j + Suc m" and k0: "0 \<le> k"
    by (metis add_Suc_right less_imp_Suc_add nat_0_iff not_less_zero linorder_not_le order.asym nat_less_iff zless_nat_conj)
  from drawn raised have it: "sample_iter env update_interval r sj = (Some e, s')"
    unfolding s'_def by (rule sample_iter_eval_error)
  have "sample_loop env update_interval r (j + Suc m) (prealloc (nat k) s0) = (Some e, s')"
    by (subst sample_loop_add) (simp add: ran it)
  then have "sample_loop env update_interval r (nat k) (prealloc (nat k) s0) = (Some e, s')"
    by (simp only: nk)
  with init k0 have res: "sample env p0 lnpost0 lnprop0 k update_interval s = (Inl e, s')"
    by (simp add: sample_def)
  from drawn have sd: "sd = sj\<lparr>rng := Suc (rng sj)\<rparr>" using draw_Inr by blast
  note f0 = sample_init_fields [OF init]
  note lp = sample_loop_success [OF ran]
  have itj: "iterations sj = iterations s + j" using lp f0 by simp
  have pre: "take (iterations s) (chain_h sj) = chain_h s \<and>
         take (iterations s) (lnpost_h sj) = lnpost_h s \<and>
         take (iterations s) (lnprop_h sj) = lnprop_h s \<and>
         take (iterations s) (acceptance_h sj) = acceptance_h s"
    using sample_loop_prefix [OF ran, of "iterations s"] f0 inv
    by (simp add: hist_inv_def) (metis take_prealloc)
  have s'eq: "s' = (rollback (int (iterations sd)) sd)\<lparr>failed_p := Some p_p\<rparr>"
    using exc by (simp add: s'_def on_eval_error_def)
  have len: "length (chain_h sj) = iterations s + nat k" "length (lnpost_h sj) = iterations s + nat k"
     "length (lnprop_h sj) = iterations s + nat k" "length (acceptance_h sj) = iterations s + nat k"
    using lp f0 inv by (simp_all add: hist_inv_def)
  have fr: "processes sd = processes s" "npools sd = npools s" "pool sj = pool s"
    using sample_loop_frame [OF ran] f0 sd by simp_all
  have itd: "iterations sd = iterations s + j" and hd: "chain_h sd = chain_h sj"
    "lnpost_h sd = lnpost_h sj" "lnprop_h sd = lnprop_h sj" "acceptance_h sd = acceptance_h sj"
    using itj sd by simp_all
  have "failed_p s' = Some p_p" "iterations s' = iterations s + j"
    by (simp_all add: s'eq itd)
  moreover have h: "chain_h s' = take (iterations s + j) (chain_h sj)"
    "lnpost_h s' = take (iterations s + j) (lnpost_h sj)"
    "lnprop_h s' = take (iterations s + j) (lnprop_h sj)"
    "acceptance_h s' = take (iterations s + j) (acceptance_h sj)"
    by (simp_all add: s'eq itd hd py_take_nonneg nat_int_add)
  moreover have "hist_inv s'"
    using k by (simp add: hist_inv_def h len \<open>iterations s' = iterations s + j\<close>)
  moreover have "take (iterations s) (chain_h s') = chain_h s"
    "take (iterations s) (lnpost_h s') = lnpost_h s"
    "take (iterations s) (lnprop_h s') = lnprop_h s"
    "take (iterations s) (acceptance_h s') = acceptance_h s"
    using pre by (simp_all add: h min_def)
  moreover have "processes s \<noteq> Some 1 \<longrightarrow> pool s' = Some (npools s) \<and> npools s' = Suc (npools s)"
    by (simp add: s'eq fr)
  ultimately show ?thesis using res by blast
qed

theorem sample_eval_failure_witness:
  "\<exists>s'. sample demo_env (Some 0) None None 3 10 demo_state = (Inl (Exception ''boom''), s') \<and>
     failed_p s' = Some [[2]] \<and> iterations s' = 2 \<and> length (chain_h s') = 2 \<and>
     pool s' = Some 1"
proof -
  define s0 where "s0 = snd (sample_init demo_env (Some 0) None None demo_state)"
  define sj where "sj = snd (sample_loop demo_env 10 (1, 2, 3) 2 (prealloc (nat 3) s0))"
  define sd where "sd = sj\<lparr>rng := Suc (rng sj)\<rparr>"
  have init: "sample_init demo_env (Some 0) None None demo_state = (Inr (1, 2, 3), s0)"
    by (simp add: s0_def prod_eq_iff sampler_defs)
  have ran: "sample_loop demo_env 10 (1, 2, 3) 2 (prealloc (nat 3) s0) = (None, sj)"
    by (simp add: sj_def s0_def prod_eq_iff sampler_defs numeral_2_eq_2 numeral_3_eq_3)
  have drawn: "draw demo_env (nwalkers sj) sj = Inr ([[2]], sd)"
    by (simp add: sd_def sj_def s0_def prod_eq_iff sampler_defs numeral_2_eq_2 numeral_3_eq_3)
  have raised: "lnprob_batch demo_env (kde sd) [[2]] = Inl (Exception ''boom'')"
    by (simp add: lnprob_batch_def GetLnProbWrapper_def demo_env_def)
  have pr: "processes demo_state \<noteq> Some 1" "npools demo_state = 1" "iterations demo_state = 0"
    by (simp_all add: demo_state_def init_def alloc_mat_def new_Pool_def)
  from sample_eval_failure [OF hist_inv_demo init _ ran drawn raised] pr
  show ?thesis by (auto simp: hist_inv_def)
qed

subsection \<open>An evaluation that raises before the loop\<close>

text \<open>
  Claim C10: when the caller gives \<^verbatim>\<open>p0\<close> but not both of \<^verbatim>\<open>lnpost0\<close> and \<^verbatim>\<open>lnprop0\<close>, and
  the evaluation of the initial positions (with the proposal that exists, or the one just
  built from them) raises, \<^verbatim>\<open>sample\<close> raises that exception; the four histories and the
  iteration counter are unchanged, \<^verbatim>\<open>failed_p\<close> is not updated and no pool is created.
\<close>

theorem initial_evaluation_failure:
  assumes "lnpost0 = None \<or> lnprop0 = None"
    and "lnprob_batch env (kde (if kde s = None then optimized_kde (mats s a) s else s)) (mats s a)
           = Inl e"
  shows "\<exists>s'. sample env (Some a) lnpost0 lnprop0 k update_interval s = (Inl e, s') \<and>
           chain_h s' = chain_h s \<and> lnpost_h s' = lnpost_h s \<and> lnprop_h s' = lnprop_h s \<and>
           acceptance_h s' = acceptance_h s \<and> iterations s' = iterations s \<and>
           failed_p s' = failed_p s \<and> pool s' = pool s \<and> npools s' = npools s"
proof -
  obtain x s1 where init: "sample_init env (Some a) lnpost0 lnprop0 s = (x, s1)"
    by (cases "sample_init env (Some a) lnpost0 lnprop0 s")
  from init assms have "x = Inl e"
    by (auto simp: sample_init_def alloc_mat_def optimized_kde_def Let_def split: if_splits)
  with init have "sample env (Some a) lnpost0 lnprop0 k update_interval s = (Inl e, s1)"
    by (simp add: sample_def)
  with sample_init_fields [OF init] show ?thesis by simp
qed

theorem initial_evaluation_failure_witness:
  "\<exists>s'. sample demo_env (Some 0) None None 5 10 demo_state_bad = (Inl (Exception ''boom''), s') \<and>
     chain_h s' = [] \<and> iterations s' = 0 \<and> failed_p s' = None \<and> pool s' = Some 0 \<and> npools s' = 1"
proof -
  have "lnprob_batch demo_env
          (kde (if kde demo_state_bad = None then optimized_kde (mats demo_state_bad 0) demo_state_bad
                else demo_state_bad)) (mats demo_state_bad 0) = Inl (Exception ''boom'')"
    by (simp add: sampler_defs demo_state_bad_def)
  from initial_evaluation_failure [OF _ this, of None None 5 10]
  show ?thesis by (auto simp: demo_state_bad_def init_def alloc_mat_def new_Pool_def)
qed

subsection \<open>\<^verbatim>\<open>rollback\<close> and the iteration counter\<close>

text \<open>For an index within the histories, \<^verbatim>\<open>rollback\<close> cuts all four to that length. It
  does not write the iteration counter.\<close>

lemma rollback_lengths:
  assumes "0 \<le> k" and "nat k \<le> length (chain_h s)" and "nat k \<le> length (lnpost_h s)"
    and "nat k \<le> length (lnprop_h s)" and "nat k \<le> length (acceptance_h s)"
  shows "length (chain_h (rollback k s)) = nat k \<and> length (lnpost_h (rollback k s)) = nat k \<and>
         length (lnprop_h (rollback k s)) = nat k \<and> length (acceptance_h (rollback k s)) = nat k \<and>
         iterations (rollback k s) = iterations s"
  using assms by (simp add: py_take_nonneg)

text \<open>
  Claim C2 says that \<^verbatim>\<open>rollback(k)\<close> also resets the iteration counter to \<open>k\<close>, so that
  the next \<^verbatim>\<open>sample\<close> continues from \<open>k\<close>. On the demo instance, after one iteration
  (histories and counter agree at 1), \<^verbatim>\<open>rollback(0)\<close> empties the histories and leaves
  the counter at 1; the next \<^verbatim>\<open>sample(iterations=1)\<close> then writes at index 1 of a history
  of length 1 and raises IndexError.
\<close>

theorem rollback_counter_not_reset:
  "fst (sample demo_env (Some 0) None None 1 10 demo_state) = Inr (1, 2, 3) \<and>
   hist_inv (snd (sample demo_env (Some 0) None None 1 10 demo_state)) \<and>
   iterations (snd (sample demo_env (Some 0) None None 1 10 demo_state)) = 1 \<and>
   length (chain_h (rollback 0 (snd (sample demo_env (Some 0) None None 1 10 demo_state)))) = 0 \<and>
   iterations (rollback 0 (snd (sample demo_env (Some 0) None None 1 10 demo_state))) = 1 \<and>
   fst (sample demo_env (Some 0) None None 1 10
          (rollback 0 (snd (sample demo_env (Some 0) None None 1 10 demo_state)))) = Inl IndexError"
  by (simp add: sampler_defs hist_inv_def)

subsection \<open>The Metropolis-Hastings ratio\<close>

text \<open>
  Claim C4: in a pass of the loop, with \<open>lnpost_p\<close> and \<open>lnprop_p\<close> the values of the
  proposed batch and \<open>lnpost\<close>, \<open>lnprop\<close> the current arrays, the ratio of walker \<open>w\<close> is
  \<open>lnpost_p - lnpost + lnprop - lnprop_p\<close>, and a walker whose ratio is above zero has
  its acceptance flag set in the row the pass stores, whatever the uniform numbers are
  (the environment, and with it \<open>rand\<close>, is arbitrary).
\<close>

theorem positive_ratio_accepted:
  assumes "draw env (nwalkers s) s = Inr (p_p, s1)"
    and "lnprob_batch env (kde s1) p_p = Inr (lnpost_p, lnprop_p)"
    and "sample_iter env update_interval (p, lnpost, lnprop) s = (None, s')"
    and "w < length lnpost_p" and "w < length (vecs s lnpost)" and "w < length (vecs s lnprop)"
  shows "ln_mh_ratio lnpost_p (vecs s lnpost) (vecs s lnprop) lnprop_p ! w =
           fsub (fadd (fsub (lnpost_p ! w) (vecs s lnpost ! w)) (vecs s lnprop ! w)) (lnprop_p ! w) \<and>
         (fgt (fsub (fadd (fsub (lnpost_p ! w) (vecs s lnpost ! w)) (vecs s lnprop ! w))
                (lnprop_p ! w)) (Fin 0)
            \<longrightarrow> acceptance_h s' ! iterations s ! w)"
proof -
  let ?r = "ln_mh_ratio lnpost_p (vecs s lnpost) (vecs s lnprop) lnprop_p"
  from lnprob_batch_length [OF assms(2)] have len: "length lnprop_p = length lnpost_p"
    by simp
  with assms(4-6) have r: "?r ! w =
      fsub (fadd (fsub (lnpost_p ! w) (vecs s lnpost ! w)) (vecs s lnprop ! w)) (lnprop_p ! w)"
    by (intro ln_mh_ratio_nth) simp_all
  from len assms(4-6) have w: "w < length ?r" by (simp add: length_ln_mh_ratio)
  from sample_iter_acceptance_row [OF assms(3) assms(1) assms(2)]
  have row: "acceptance_h s' ! iterations s = accept_mask ?r (uniform_draws env (rng s1) ?r)"
    by simp
  show ?thesis
    using r accept_mask_positive [OF w] by (simp add: row)
qed

theorem positive_ratio_accepted_witness:
  "acceptance_h (snd (sample_iter demo_env 10 (1, 2, 3)
      (prealloc 1 (snd (sample_init demo_env (Some 0) None None demo_state))))) ! 0 ! 0"
proof -
  define s where "s = prealloc 1 (snd (sample_init demo_env (Some 0) None None demo_state))"
  define s1 where "s1 = s\<lparr>rng := Suc (rng s)\<rparr>"
  define s' where "s' = snd (sample_iter demo_env 10 (1, 2, 3) s)"
  have d: "draw demo_env (nwalkers s) s = Inr ([[1]], s1)"
    by (simp add: s1_def s_def sampler_defs)
  have e: "lnprob_batch demo_env (kde s1) [[1]] = Inr ([Fin 1], [Fin 0])"
    by (simp add: s1_def s_def sampler_defs)
  have i: "sample_iter demo_env 10 (1, 2, 3) s = (None, s')"
    by (simp add: s'_def s_def prod_eq_iff sampler_defs)
  have v: "vecs s 2 = [Fin 0]" "vecs s 3 = [Fin 0]" "iterations s = 0"
    by (simp_all add: s_def sampler_defs)
  from positive_ratio_accepted [OF d e i, of 0] v
  show ?thesis by (simp add: s'_def s_def fsub_def)
qed

subsection \<open>A uniform draw of zero\<close>

text \<open>
  Claim C5 says that a uniform draw of exactly zero never leads to acceptance. The code
  has no such guard: \<^verbatim>\<open>np.log(0)\<close> is \<^verbatim>\<open>-inf\<close> and line 268 compares the ratio with
  it. A walker with ratio \<open>-1\<close>, which is in the probabilistic branch, is accepted on a
  draw of zero.
\<close>

theorem zero_draw_counterexample:
  "\<not> fgt (Fin (- 1)) (Fin 0) \<and> accept_mask [Fin (- 1)] [0] = [True]"
  by (simp add: accept_mask_def np_log_def Let_def)

text \<open>
  C5 as amended: for a walker in the probabilistic branch (its ratio is not above zero)
  whose uniform draw is exactly zero, the walker is accepted if and only if its ratio is
  a finite number; it is rejected only when the ratio is \<^verbatim>\<open>-inf\<close> or NaN.
\<close>

theorem zero_draw_accepts_finite:
  assumes "w < length r" and "\<not> fgt (r ! w) (Fin 0)"
    and "length us = length (filter (\<lambda>x. \<not> fgt x (Fin 0)) r)"
    and "us ! length (filter (\<lambda>x. \<not> fgt x (Fin 0)) (take w r)) = 0"
  shows "accept_mask r us ! w \<longleftrightarrow> (\<exists>y. r ! w = Fin y)"
  using assms accept_mask_worse [of w r us] fgt_NInf_iff [of "r ! w"]
  by (simp add: nworse_def np_log_def)

theorem zero_draw_witness:
  "accept_mask [Fin 2, Fin (- 1), NInf] [0, 0] ! 1 \<and>
   \<not> accept_mask [Fin 2, Fin (- 1), NInf] [0, 0] ! 2"
  using zero_draw_accepts_finite [of 1 "[Fin 2, Fin (- 1), NInf]" "[0, 0]"]
    zero_draw_accepts_finite [of 2 "[Fin 2, Fin (- 1), NInf]" "[0, 0]"]
  by simp

subsection \<open>When the proposal is refitted\<close>

text \<open>
  Claim C8: in a call of \<^verbatim>\<open>sample\<close> that returns, the calls of \<^verbatim>\<open>optimized_kde\<close> made by
  the loop are, in order, one for each pass whose new iteration count \<open>j\<close> is a multiple of
  \<^verbatim>\<open>update_interval\<close>, fitted to the ensemble that the pass stored in row \<open>j - 1\<close> of the
  chain; there is no other. The sampler's density at the end is the last of them, a new
  object, or the density the loop started with when there was no such pass.
\<close>

theorem refit_schedule:
  assumes "sample_init env p0 lnpost0 lnprop0 s = (Inr r, s0)"
    and "sample env p0 lnpost0 lnprop0 k update_interval s = (Inr r, s')"
  shows "fit_log s' = fit_log s0 @
           map (\<lambda>j. (j, chain_h s' ! (j - 1))) (refit_steps update_interval (iterations s) (nat k)) \<and>
         kde s' = (if refit_steps update_interval (iterations s) (nat k) = [] then kde s0
                   else Some (KDE (length (fit_log s') - 1)
                     (chain_h s' ! (last (refit_steps update_interval (iterations s) (nat k)) - 1))))"
proof -
  from assms(2) obtain s1 where init: "sample_init env p0 lnpost0 lnprop0 s = (Inr r, s1)"
    and lp: "sample_loop env update_interval r (nat k) (prealloc (nat k) s1) = (None, s')"
    by (rule sample_Inr)
  from init assms(1) have "s1 = s0" by simp
  with sample_loop_refit [OF lp] sample_init_fields [OF init] show ?thesis by simp
qed

theorem refit_schedule_witness:
  "refit_steps 2 0 2 = [2] \<and>
   fit_log (snd (sample demo_env (Some 0) None None 2 2 demo_state)) = [(0, [[0]]), (2, [[1]])] \<and>
   kde (snd (sample demo_env (Some 0) None None 2 2 demo_state)) = Some (KDE 1 [[1]])"
proof -
  define s0 where "s0 = snd (sample_init demo_env (Some 0) None None demo_state)"
  define s' where "s' = snd (sample demo_env (Some 0) None None 2 2 demo_state)"
  have init: "sample_init demo_env (Some 0) None None demo_state = (Inr (1, 2, 3), s0)"
    by (simp add: s0_def prod_eq_iff sampler_defs)
  have run: "sample demo_env (Some 0) None None 2 2 demo_state = (Inr (1, 2, 3), s')"
    by (simp add: s'_def prod_eq_iff sampler_defs numeral_2_eq_2)
  have steps: "refit_steps 2 0 2 = [2]"
    by (simp add: refit_steps_def upt_rec [of 1] upt_rec [of 2])
  have vals: "iterations demo_state = 0" "fit_log s0 = [(0, [[0]])]" "chain_h s' ! 1 = [[1]]"
    by (simp_all add: s0_def s'_def sampler_defs numeral_2_eq_2)
  from refit_schedule [OF init run] steps vals show ?thesis
    by (simp add: s'_def [symmetric])
qed

subsection \<open>The caller's arrays\<close>

text \<open>
  Claim C9: a call of \<^verbatim>\<open>sample\<close> with the caller's arrays \<^verbatim>\<open>p0\<close>, \<^verbatim>\<open>lnpost0\<close> and
  \<^verbatim>\<open>lnprop0\<close> (two different arrays of \<^verbatim>\<open>nwalkers\<close> entries) that returns, returns those
  very two arrays; during the call they are written in place and end up equal to the last
  rows of the two histories. An entry of a walker that no pass of the call accepted is
  unchanged; an entry of a walker that some pass accepted holds the log values that the
  evaluation of a proposed batch gave for that walker. The ensemble returned is a new
  array, and the caller's \<^verbatim>\<open>p0\<close> is unchanged.
\<close>

theorem caller_arrays_mutated:
  assumes run: "sample env (Some c) (Some a) (Some b) k update_interval s
                  = (Inr (p, lnpost, lnprop), s')"
    and alloc: "c < brk s" and ab: "a \<noteq> b" and ok: "draws_ok env"
    and la: "length (vecs s a) = nwalkers s" and lb: "length (vecs s b) = nwalkers s"
    and w: "w < nwalkers s"
  shows "lnpost = a \<and> lnprop = b \<and> p \<noteq> c \<and> mats s' c = mats s c \<and>
         (0 < k \<longrightarrow> lnpost_h s' ! (iterations s' - 1) = vecs s' a \<and>
                   lnprop_h s' ! (iterations s' - 1) = vecs s' b) \<and>
         (if \<exists>j. iterations s \<le> j \<and> j < iterations s' \<and> acceptance_h s' ! j ! w
          then \<exists>kd batch vals props.
                 lnprob_batch env (Some kd) batch = Inr (vals, props) \<and>
                 length vals = nwalkers s \<and> length props = nwalkers s \<and>
                 vecs s' a ! w = vals ! w \<and> vecs s' b ! w = props ! w
          else vecs s' a ! w = vecs s a ! w \<and> vecs s' b ! w = vecs s b ! w)"
proof -
  from run obtain s0 where init: "sample_init env (Some c) (Some a) (Some b) s = (Inr (p, lnpost, lnprop), s0)"
    and k: "0 \<le> k"
    and lp: "sample_loop env update_interval (p, lnpost, lnprop) (nat k) (prealloc (nat k) s0) = (None, s')"
    by (rule sample_Inr)
  from sample_init_given [OF init]
  have r: "p = brk s" "lnpost = a" "lnprop = b" and v0: "vecs s0 = vecs s"
    and m0: "mats s0 = (mats s)(brk s := mats s c)"
    by simp_all
  note f0 = sample_init_fields [OF init]
  note fr = sample_loop_store_frame [OF lp]
  have it: "iterations s' = iterations s + nat k"
    using sample_loop_success [OF lp] f0 by simp
  from alloc r have pc: "p \<noteq> c" by simp
  with fr m0 r have mc: "mats s' c = mats s c" by simp
  from fr k r have last: "0 < k \<longrightarrow> lnpost_h s' ! (iterations s' - 1) = vecs s' a \<and>
                   lnprop_h s' ! (iterations s' - 1) = vecs s' b"
    by simp
  have eqs: "iterations (prealloc (nat k) s0) = iterations s"
    "nwalkers (prealloc (nat k) s0) = nwalkers s" "vecs (prealloc (nat k) s0) = vecs s"
    "iterations s + nat k = iterations s'"
    using f0 v0 it by simp_all
  have "if \<exists>j. iterations (prealloc (nat k) s0) \<le> j \<and> j < iterations (prealloc (nat k) s0) + nat k \<and>
               acceptance_h s' ! j ! w
          then \<exists>kd batch vals props.
                 lnprob_batch env (Some kd) batch = Inr (vals, props) \<and>
                 length vals = nwalkers (prealloc (nat k) s0) \<and>
                 length props = nwalkers (prealloc (nat k) s0) \<and>
                 vecs s' a ! w = vals ! w \<and> vecs s' b ! w = props ! w
          else vecs s' a ! w = vecs (prealloc (nat k) s0) a ! w \<and>
               vecs s' b ! w = vecs (prealloc (nat k) s0) b ! w"
    using lp [unfolded r] ab ok la lb w f0 v0
    by (intro sample_loop_walker) simp_all
  then have walker: "if \<exists>j. iterations s \<le> j \<and> j < iterations s' \<and> acceptance_h s' ! j ! w
          then \<exists>kd batch vals props.
                 lnprob_batch env (Some kd) batch = Inr (vals, props) \<and>
                 length vals = nwalkers s \<and> length props = nwalkers s \<and>
                 vecs s' a ! w = vals ! w \<and> vecs s' b ! w = props ! w
          else vecs s' a ! w = vecs s a ! w \<and> vecs s' b ! w = vecs s b ! w"
    unfolding eqs .
  from r pc mc last walker show ?thesis by blast
qed

theorem caller_arrays_mutated_witness:
  "fst (sample demo_env (Some 0) (Some 1) (Some 2) 1 10 demo_state_given) = Inr (3, 1, 2) \<and>
   mats (snd (sample demo_env (Some 0) (Some 1) (Some 2) 1 10 demo_state_given)) 0 = [[0]] \<and>
   vecs demo_state_given 1 = [Fin 0] \<and>
   vecs (snd (sample demo_env (Some 0) (Some 1) (Some 2) 1 10 demo_state_given)) 1 = [Fin 1] \<and>
   (\<exists>kd batch vals props.
      lnprob_batch demo_env (Some kd) batch = Inr (vals, props) \<and>
      vecs (snd (sample demo_env (Some 0) (Some 1) (Some 2) 1 10 demo_state_given)) 1 ! 0 = vals ! 0)"
proof -
  define s' where "s' = snd (sample demo_env (Some 0) (Some 1) (Some 2) 1 10 demo_state_given)"
  have run: "sample demo_env (Some 0) (Some 1) (Some 2) 1 10 demo_state_given = (Inr (3, 1, 2), s')"
    by (simp add: s'_def prod_eq_iff sampler_defs demo_state_given_def numeral_3_eq_3 numeral_2_eq_2)
  have ok: "draws_ok demo_env" by (simp add: draws_ok_def demo_env_def)
  have pre: "0 < brk demo_state_given" "length (vecs demo_state_given 1) = nwalkers demo_state_given"
    "length (vecs demo_state_given 2) = nwalkers demo_state_given" "0 < nwalkers demo_state_given"
    "vecs demo_state_given 1 = [Fin 0]" "mats demo_state_given 0 = [[0]]"
    "iterations demo_state_given = 0"
    by (simp_all add: sampler_defs demo_state_given_def)
  have post: "acceptance_h s' ! 0 ! 0" "iterations s' = 1" "vecs s' 1 = [Fin 1]"
    by (simp_all add: s'_def sampler_defs demo_state_given_def)
  have "iterations demo_state_given \<le> 0 \<and> 0 < iterations s' \<and> acceptance_h s' ! 0 ! 0"
    by (simp add: pre(7) post)
  then have ex: "\<exists>j. iterations demo_state_given \<le> j \<and> j < iterations s' \<and> acceptance_h s' ! j ! 0"
    by blast
  have ne: "(1::nat) \<noteq> 2" by simp
  note main = caller_arrays_mutated [OF run pre(1) ne ok pre(2,3,4)]
  note frame = main [THEN conjunct2, THEN conjunct2, THEN conjunct2, THEN conjunct1]
  note walker = main [THEN conjunct2, THEN conjunct2, THEN conjunct2, THEN conjunct2,
      THEN conjunct2, unfolded if_P [OF ex]]
  from walker have "\<exists>kd batch vals props.
      lnprob_batch demo_env (Some kd) batch = Inr (vals, props) \<and> vecs s' 1 ! 0 = vals ! 0"
    by blast
  moreover from frame have "mats s' 0 = [[0]]"
    by (simp only: pre(6))
  ultimately have "(\<exists>kd batch vals props.
      lnprob_batch demo_env (Some kd) batch = Inr (vals, props) \<and> vecs s' 1 ! 0 = vals ! 0)"
    and "mats s' 0 = [[0]]"
    by blast+
  with run pre(5) post(3) show ?thesis unfolding s'_def [symmetric] by simp
qed

subsection \<open>The next test interval of the burn-in\<close>

text \<open>With no walker accepted in the last iteration, line 142 divides by a mean of zero
  and takes \<^verbatim>\<open>int\<close> of infinity.\<close>

lemma adapt_interval_no_acceptance:
  assumes "acceptance_h s \<noteq> []" and "last (acceptance_h s) \<noteq> []"
    and "True \<notin> set (last (acceptance_h s))"
  shows "adapt_interval s = Inl OverflowError"
proof -
  have "True \<notin> set bs \<Longrightarrow> sum_list (map of_bool bs) = (0::real)" for bs
    by (induction bs) auto
  with assms show ?thesis by (simp add: adapt_interval_def np_mean_def)
qed

text \<open>What lines 142 to 155 compute when they do not raise.\<close>

lemma adapt_interval_Inr:
  assumes "adapt_interval s = Inr t"
  shows "acceptance_h s \<noteq> [] \<and> 0 < np_mean (map of_bool (last (acceptance_h s))) \<and>
    (let w = \<lfloor>10 / np_mean (map of_bool (last (acceptance_h s)))\<rfloor>;
         rates = map (\<lambda>i. np_mean (map (\<lambda>row. of_bool (row ! i)) (py_last_n w (acceptance_h s))))
                    [0 ..< nwalkers s];
         low_rate = sort rates ! nat \<lfloor>0.1 * real (nwalkers s)\<rfloor>
     in nat \<lfloor>0.1 * real (nwalkers s)\<rfloor> < nwalkers s \<and>
        t = (if low_rate > 0 then \<lfloor>1 / low_rate\<rfloor> else w))"
proof -
  let ?m = "np_mean (map of_bool (last (acceptance_h s)))"
  from assms have ne: "acceptance_h s \<noteq> []" and m0: "?m \<noteq> 0"
    by (auto simp: adapt_interval_def Let_def split: if_splits)
  with np_mean_of_bool [of "last (acceptance_h s)"] have mpos: "0 < ?m" by simp
  then have w: "py_int (10 * 1 / ?m) = \<lfloor>10 / ?m\<rfloor>" by (simp add: py_int_floor)
  have i: "py_int (0.1 * real (nwalkers s)) = \<lfloor>0.1 * real (nwalkers s)\<rfloor>"
    by (simp add: py_int_floor)
  have l: "0 < x \<Longrightarrow> py_int (1 / x) = \<lfloor>1 / x\<rfloor>" for x :: real
    by (simp add: py_int_floor)
  from assms ne m0 mpos show ?thesis
    unfolding adapt_interval_def Let_def w i
    by (auto simp: l split: if_splits)
qed

lemma adapt_interval_ge1:
  assumes "adapt_interval s = Inr t"
  shows "1 \<le> t"
proof -
  let ?m = "np_mean (map of_bool (last (acceptance_h s)))"
  let ?w = "\<lfloor>10 / ?m\<rfloor>"
  let ?rates = "map (\<lambda>i. np_mean (map (\<lambda>row. of_bool (row ! i)) (py_last_n ?w (acceptance_h s))))
                    [0 ..< nwalkers s]"
  let ?low = "sort ?rates ! nat \<lfloor>0.1 * real (nwalkers s)\<rfloor>"
  from adapt_interval_Inr [OF assms] have mpos: "0 < ?m"
    and idx: "nat \<lfloor>0.1 * real (nwalkers s)\<rfloor> < nwalkers s"
    and t: "t = (if ?low > 0 then \<lfloor>1 / ?low\<rfloor> else ?w)"
    by (simp_all add: Let_def)
  from np_mean_of_bool [of "last (acceptance_h s)"] have "?m \<le> 1" by simp
  with mpos have "10 \<le> 10 / ?m" by (simp add: field_simps)
  then have w: "10 \<le> ?w" by linarith
  from idx have "?low \<in> set (sort ?rates)" by (intro nth_mem) simp
  then have "?low \<in> set ?rates" by simp
  then obtain x where "?low = np_mean (map (\<lambda>row. of_bool (row ! x)) (py_last_n ?w (acceptance_h s)))"
    by auto
  with np_mean_of_bool_row [of "\<lambda>row. row ! x" "py_last_n ?w (acceptance_h s)"]
  have low1: "?low \<le> 1" by simp
  show ?thesis
  proof (cases "?low > 0")
    case True
    with low1 have "1 \<le> 1 / ?low" by (simp add: field_simps)
    then have "1 \<le> \<lfloor>1 / ?low\<rfloor>" by linarith
    with True t show ?thesis by simp
  next
    case False
    with t w show ?thesis by simp
  qed
qed

lemma burnin_cycle_Continue:
  assumes "burnin_cycle env ui max_iter b s = Continue b' s'"
  shows "\<exists>p lnpost lnprop t.
           sample env (Some (b_p0 b)) (b_lnpost0 b) (b_lnprop0 b) (test_interval b) ui s
             = (Inr (p, lnpost, lnprop), s') \<and>
           adapt_interval s' = Inr t \<and>
           b' = \<lparr>b_p0 = p, b_lnpost0 = Some lnpost, b_lnprop0 = Some lnprop,
                 test_interval = t, b_last = Some (p, lnpost, lnprop)\<rparr> \<and>
           (\<forall>m. max_iter = Some m \<longrightarrow> int (iterations s) + test_interval b \<le> m)"
  using assms
  by (auto simp: burnin_cycle_def split: if_splits option.splits prod.splits sum.splits bool.splits)

lemma burnin_cycle_Stop:
  assumes "burnin_cycle env ui (Some m) b s = Stop r u s'"
  shows "if u then s' = s \<and> r = burnin_return (b_last b) \<and> m < int (iterations s) + test_interval b
         else int (iterations s) + test_interval b \<le> m \<and>
              iterations s' \<le> iterations s + nat (test_interval b)"
proof (cases "int (iterations s) + test_interval b > m")
  case True
  with assms show ?thesis by (auto simp: burnin_cycle_def)
next
  case False
  obtain x s1 where sm: "sample env (Some (b_p0 b)) (b_lnpost0 b) (b_lnprop0 b) (test_interval b) ui s = (x, s1)"
    by (cases "sample env (Some (b_p0 b)) (b_lnpost0 b) (b_lnprop0 b) (test_interval b) ui s")
  with sample_iterations_le [of env "Some (b_p0 b)" "b_lnpost0 b" "b_lnprop0 b" "test_interval b" ui s]
  have le: "iterations s1 \<le> iterations s + nat (test_interval b)" by simp
  from assms False sm have "\<not> u \<and> s' = s1"
    by (auto simp: burnin_cycle_def split: if_splits option.splits prod.splits sum.splits bool.splits)
  with le False show ?thesis by simp
qed

text \<open>
  Claim C7 gives the window and the next interval as \<open>round\<close> of a quotient. The source
  takes \<^verbatim>\<open>int\<close> of it, which truncates. With three of five walkers accepted in the last
  iteration the mean is 0.6 and the quotient 16.67: the code continues with a test
  interval of 16 where the claim's formula gives 17.
\<close>

theorem next_interval_counterexample:
  "adapt_interval demo_state5 = Inr 16 \<and> spec_next_interval demo_state5 = 17"
  by (simp add: adapt_interval_def spec_next_interval_def demo_state5_def init_def new_Pool_def
      np_mean_def py_int_def py_last_n_def Let_def upt5 round_def)

text \<open>
  C7 as amended: whenever a cycle of the burn-in fails the distribution test and the loop
  goes on to another cycle, the next test interval is computed as: window length \<open>w\<close> = 10
  divided by the mean acceptance of the last iteration, truncated to an integer;
  per-walker acceptance rates averaged over the last \<open>w\<close> iterations; \<open>low_rate\<close> = the
  sorted rates at index \<open>floor(0.1 * nwalkers)\<close>; next interval = \<open>1 / low_rate\<close> truncated
  to an integer if \<open>low_rate > 0\<close>, otherwise \<open>w\<close>. (All the quotients are positive, where
  truncation is \<open>floor\<close>.)
\<close>

theorem next_interval_truncated:
  assumes "burnin_cycle env update_interval max_iter b s = Continue b' s'"
  shows "let w = \<lfloor>10 / np_mean (map of_bool (last (acceptance_h s')))\<rfloor>;
             rates = map (\<lambda>i. np_mean (map (\<lambda>row. of_bool (row ! i))
                                           (py_last_n w (acceptance_h s'))))
                       [0 ..< nwalkers s'];
             low_rate = sort rates ! nat \<lfloor>0.1 * real (nwalkers s')\<rfloor>
         in test_interval b' = (if low_rate > 0 then \<lfloor>1 / low_rate\<rfloor> else w)"
proof -
  from burnin_cycle_Continue [OF assms] obtain t where
    "adapt_interval s' = Inr t" and "test_interval b' = t"
    by auto
  with adapt_interval_Inr [of s' t] show ?thesis by (simp add: Let_def)
qed

theorem next_interval_truncated_witness:
  "\<exists>b' s'. burnin_cycle demo_env 10 (Some 1)
       \<lparr>b_p0 = 0, b_lnpost0 = None, b_lnprop0 = None, test_interval = 1, b_last = None\<rparr>
       demo_state = Continue b' s' \<and> test_interval b' = 1"
proof -
  let ?b = "\<lparr>b_p0 = 0, b_lnpost0 = None, b_lnprop0 = None, test_interval = 1, b_last = None\<rparr>"
  have "\<exists>b' s'. burnin_cycle demo_env 10 (Some 1) ?b demo_state = Continue b' s' \<and>
          acceptance_h s' = [[True]] \<and> nwalkers s' = 1"
    by (simp add: burnin_defs sampler_defs)
  then obtain b' s' where c: "burnin_cycle demo_env 10 (Some 1) ?b demo_state = Continue b' s'"
    and s': "acceptance_h s' = [[True]]" "nwalkers s' = 1"
    by blast
  from next_interval_truncated [OF c] have "test_interval b' = 1"
    by (simp add: s' np_mean_def py_last_n_def Let_def)
  with c show ?thesis by blast
qed

subsection \<open>The end of the burn-in\<close>

text \<open>
  The loop with a step budget returns. What decreases from one cycle to the next is the
  room left below the budget, plus one while the test interval is not positive (only the
  first interval can be zero; an adapted one is at least 1).
\<close>

lemma burnin_loop_terminates:
  assumes "int (iterations s) \<le> B" and "M \<le> B"
    and "b_last b = None \<longrightarrow> int (iterations s) + test_interval b \<le> M"
    and "\<forall>x. b_last b = Some x \<longrightarrow> returned_by_sample env ui x s"
  shows "\<exists>r u s'. burnin_loop env ui (Some M) b s = Some (r, u, s') \<and>
           int (iterations s') \<le> B \<and>
           (u \<longrightarrow> (\<exists>x. r = Inr x \<and> returned_by_sample env ui x s'))"
  using assms
proof (induction "nat (M - int (iterations s)) + (if test_interval b \<le> 0 then 1 else 0)"
    arbitrary: b s rule: less_induct)
  case less
  show ?case
  proof (cases "burnin_cycle env ui (Some M) b s")
    case (Stop r u s')
    then have res: "burnin_loop env ui (Some M) b s = Some (r, u, s')"
      by (simp add: burnin_loop.simps [of env ui "Some M" b s])
    note st = burnin_cycle_Stop [OF Stop]
    show ?thesis
    proof (cases u)
      case True
      with st have "s' = s" "r = burnin_return (b_last b)"
        and "M < int (iterations s) + test_interval b"
        by simp_all
      with less.prems(3,4) obtain x where "r = Inr x" and "returned_by_sample env ui x s"
        by (cases "b_last b") (auto simp: burnin_return_def)
      with res \<open>s' = s\<close> less.prems(1) show ?thesis by blast
    next
      case False
      with st have "int (iterations s) + test_interval b \<le> M"
        and "iterations s' \<le> iterations s + nat (test_interval b)"
        by simp_all
      with less.prems(1,2) have "int (iterations s') \<le> B" by linarith
      with res False show ?thesis by blast
    qed
  next
    case (Continue b' s')
    then have res: "burnin_loop env ui (Some M) b s = burnin_loop env ui (Some M) b' s'"
      by (simp add: burnin_loop.simps [of env ui "Some M" b s])
    from burnin_cycle_Continue [OF Continue] obtain p lnpost lnprop t where
      sm: "sample env (Some (b_p0 b)) (b_lnpost0 b) (b_lnprop0 b) (test_interval b) ui s
             = (Inr (p, lnpost, lnprop), s')"
      and ad: "adapt_interval s' = Inr t"
      and b': "b' = \<lparr>b_p0 = p, b_lnpost0 = Some lnpost, b_lnprop0 = Some lnprop,
                 test_interval = t, b_last = Some (p, lnpost, lnprop)\<rparr>"
      and guard: "int (iterations s) + test_interval b \<le> M"
      by auto
    from sample_Inr_iterations [OF sm] have ti: "0 \<le> test_interval b"
      and it: "iterations s' = iterations s + nat (test_interval b)"
      by simp_all
    from adapt_interval_ge1 [OF ad] b' have t1: "1 \<le> test_interval b'" by simp
    from ti it guard have le: "int (iterations s') \<le> M" by linarith
    have dec: "nat (M - int (iterations s')) + (if test_interval b' \<le> 0 then 1 else 0)
        < nat (M - int (iterations s)) + (if test_interval b \<le> 0 then 1 else 0)"
      using ti it guard t1 by (auto split: if_splits)
    from sm have "returned_by_sample env ui (p, lnpost, lnprop) s'"
      unfolding returned_by_sample_def by blast
    then have "\<exists>r u s''. burnin_loop env ui (Some M) b' s' = Some (r, u, s'') \<and>
           int (iterations s'') \<le> B \<and>
           (u \<longrightarrow> (\<exists>x. r = Inr x \<and> returned_by_sample env ui x s''))"
      using le less.prems(2) b' by (intro less.hyps [OF dec]) simp_all
    with res show ?thesis by (simp only:)
  qed
qed

text \<open>
  Claim C6: with a finite \<^verbatim>\<open>max_steps\<close>, \<^verbatim>\<open>burnin\<close> ends (by returning or by raising
  what \<^verbatim>\<open>sample\<close> or the adaptation raised); the iteration counter never passes the count
  at the start plus \<^verbatim>\<open>max_steps\<close>; and when it gives up (it prints
  \<^verbatim>\<open>Burnin unsuccessful.\<close>) it does not raise: it returns what the last call of
  \<^verbatim>\<open>sample\<close> returned, in the state that call left.
\<close>

theorem burnin_terminates:
  "\<exists>r u s'. burnin env p0 lnpost0 lnprop0 update_interval (Some max_steps) s = Some (r, u, s') \<and>
      int (iterations s') \<le> int (iterations s) + max 0 max_steps \<and>
      (u \<longrightarrow> (\<exists>x. r = Inr x \<and> returned_by_sample env update_interval x s'))"
proof -
  let ?s1 = "s\<lparr>mats := (mats s)(brk s := mats s p0), brk := Suc (brk s)\<rparr>"
  let ?b = "\<lparr>b_p0 = brk s, b_lnpost0 = lnpost0, b_lnprop0 = lnprop0,
            test_interval = min update_interval max_steps, b_last = None\<rparr>"
  have "\<exists>r u s'. burnin_loop env update_interval (Some (int (iterations ?s1) + max_steps)) ?b ?s1
            = Some (r, u, s') \<and>
          int (iterations s') \<le> int (iterations s) + max 0 max_steps \<and>
          (u \<longrightarrow> (\<exists>x. r = Inr x \<and> returned_by_sample env update_interval x s'))"
    by (rule burnin_loop_terminates) simp_all
  then show ?thesis by (simp add: burnin_def alloc_mat_def Let_def)
qed

theorem burnin_terminates_witness:
  "\<exists>x s'. burnin demo_env 0 None None 10 (Some 1) demo_state = Some (Inr x, True, s') \<and>
      iterations s' \<le> 1"
proof -
  have ev: "\<exists>r s'. burnin demo_env 0 None None 10 (Some 1) demo_state = Some (r, True, s')"
    by (simp add: burnin_defs sampler_defs burnin_loop.simps)
  from burnin_terminates [of demo_env 0 None None 10 1 demo_state]
  obtain r u s' where res: "burnin demo_env 0 None None 10 (Some 1) demo_state = Some (r, u, s')"
    and le: "int (iterations s') \<le> int (iterations demo_state) + max 0 1"
    and inr: "u \<longrightarrow> (\<exists>x. r = Inr x \<and> returned_by_sample demo_env 10 x s')"
    by blast
  from ev res have u by auto
  with inr obtain x where "r = Inr x" by blast
  with res \<open>u\<close> have "burnin demo_env 0 None None 10 (Some 1) demo_state = Some (Inr x, True, s')"
    by simp
  moreover have "iterations demo_state = 0" by (simp add: sampler_defs)
  with le have "iterations s' \<le> 1" by simp
  ultimately show ?thesis by blast
qed

end
